theory Spec2Isabelle
  imports Main "HOL-Library.Word"
begin

unbundle bit_operations_syntax

section \<open>Data model of my\_can.h\<close>

text \<open>\<^verbatim>\<open>SOFTWARE_CAN_BUFFER_SIZE\<close> and \<^verbatim>\<open>WAIT_FOR_TRAFFIC\<close> (my\_can.h). The size is an
  \<^verbatim>\<open>int\<close> constant in C; the index arithmetic below is done on \<^verbatim>\<open>int\<close> after the usual
  promotion of the \<^verbatim>\<open>uint16_t\<close> indices.\<close>

definition SOFTWARE_CAN_BUFFER_SIZE :: int where
  "SOFTWARE_CAN_BUFFER_SIZE = 256"

definition WAIT_FOR_TRAFFIC :: nat where
  "WAIT_FOR_TRAFFIC = 1500"

record my_CAN_BitTiming =
  baudrate :: "32 word"
  prescaler :: "16 word"
  timeSeg1 :: "8 word"
  timeSeg2 :: "8 word"

record my_CAN_Status =
  is_set :: bool
  baudrate :: "32 word"
  filter_id :: "32 word"
  mask_id :: "32 word"

text \<open>The two fields of the HAL's receive header that the module reads.\<close>

record FDCAN_RxHeaderTypeDef =
  Identifier :: "32 word"
  DataLength :: "32 word"

record my_CAN_Frame =
  Identifier :: "32 word"
  DataLength :: "8 word"
  Data :: "8 word list"

section \<open>The controller interface (STM32 HAL), as far as the module uses it\<close>

text \<open>The HAL's symbolic constants are kept symbolic: the module only passes them on.\<close>

datatype fdcan_nonmatching = FDCAN_ACCEPT_IN_RX_FIFO0 | FDCAN_ACCEPT_IN_RX_FIFO1 | FDCAN_REJECT
datatype fdcan_remote = FDCAN_FILTER_REMOTE | FDCAN_REJECT_REMOTE
datatype fdcan_id_type = FDCAN_STANDARD_ID | FDCAN_EXTENDED_ID
datatype fdcan_filter_type =
  FDCAN_FILTER_RANGE | FDCAN_FILTER_DUAL | FDCAN_FILTER_MASK | FDCAN_FILTER_RANGE_NO_EIDM
datatype fdcan_filter_config =
  FDCAN_FILTER_DISABLE | FDCAN_FILTER_TO_RXFIFO0 | FDCAN_FILTER_TO_RXFIFO1 | FDCAN_FILTER_REJECT
datatype fdcan_it =
  FDCAN_IT_RX_FIFO0_NEW_MESSAGE | FDCAN_IT_RX_FIFO0_FULL | FDCAN_IT_RX_FIFO0_MESSAGE_LOST
datatype fdcan_flag = FDCAN_FLAG_RX_FIFO0_MESSAGE_LOST
datatype fdcan_rx_location = FDCAN_RX_FIFO0 | FDCAN_RX_FIFO1
datatype HAL_StatusTypeDef = HAL_OK | HAL_ERROR

text \<open>The three fields of \<^verbatim>\<open>hfdcan1.Init\<close> that the module writes.\<close>

record FDCAN_InitTypeDef =
  NominalPrescaler :: "32 word"
  NominalTimeSeg1 :: "32 word"
  NominalTimeSeg2 :: "32 word"

record FDCAN_FilterTypeDef =
  IdType :: fdcan_id_type
  FilterIndex :: "32 word"
  FilterType :: fdcan_filter_type
  FilterConfig :: fdcan_filter_config
  FilterID1 :: "32 word"
  FilterID2 :: "32 word"

text \<open>Every call the module makes into the HAL is recorded as an event, in program order.
  A call that takes \<^verbatim>\<open>&hfdcan1\<close> and programs the controller from it carries the contents
  of \<^verbatim>\<open>hfdcan1.Init\<close> at the time of the call.\<close>

datatype hal_call =
    HAL_FDCAN_Init FDCAN_InitTypeDef
  | HAL_FDCAN_ConfigGlobalFilter fdcan_nonmatching fdcan_nonmatching fdcan_remote fdcan_remote
  | HAL_FDCAN_ConfigFilter FDCAN_FilterTypeDef
  | HAL_FDCAN_Start FDCAN_InitTypeDef
  | HAL_FDCAN_Stop
  | HAL_Delay nat
  | HAL_FDCAN_GetRxFifoFillLevel fdcan_rx_location "32 word"
  | HAL_FDCAN_ActivateNotification fdcan_it "32 word"
  | HAL_FDCAN_DeactivateNotification fdcan_it
  | HAL_FDCAN_GetRxMessage fdcan_rx_location HAL_StatusTypeDef
  | HAL_FDCAN_CLEAR_FLAG fdcan_flag
  | HAL_UART_Transmit string

text \<open>A message waiting in the controller's receive FIFO 0: its header and payload bytes.\<close>

record rx_message =
  header :: FDCAN_RxHeaderTypeDef
  payload :: "8 word list"

text \<open>\<^verbatim>\<open>HAL_FDCAN_GetRxMessage(hfdcan, FDCAN_RX_FIFO0, &rxHeader, rxData)\<close>: on an empty FIFO
  the HAL returns an error; otherwise it removes the oldest message, fills the header and
  writes the payload into the caller's 8-byte array \<^verbatim>\<open>rxData\<close>, which was zeroed before.\<close>

fun HAL_FDCAN_GetRxMessage_FIFO0 ::
  "rx_message list \<Rightarrow> (FDCAN_RxHeaderTypeDef \<times> 8 word list) option \<times> rx_message list" where
  "HAL_FDCAN_GetRxMessage_FIFO0 [] = (None, [])"
| "HAL_FDCAN_GetRxMessage_FIFO0 (m # q) =
     (Some (header m, take 8 (payload m @ replicate 8 0)), q)"

section \<open>Formatted output (my\_stdio.c, my\_debug.c)\<close>

text \<open>The conversions of \<^verbatim>\<open>vsnprintf\<close> that the module's format strings use: \<^verbatim>\<open>%d\<close>,
  \<^verbatim>\<open>%X\<close> and \<^verbatim>\<open>%x\<close>, each with an optional \<^verbatim>\<open>0\<close> flag and a minimum field width, and
  \<^verbatim>\<open>%%\<close>. Every argument is a 32-bit value after the default argument promotions.\<close>

definition LF :: char where "LF = CHR 0x0A"
definition CR :: char where "CR = CHR 0x0D"

definition digit_char :: "bool \<Rightarrow> nat \<Rightarrow> char" where
  "digit_char upper d =
     (if upper then ''0123456789ABCDEF'' else ''0123456789abcdef'') ! (d mod 16)"

fun hex_digits :: "bool \<Rightarrow> nat \<Rightarrow> string" where
  "hex_digits upper n =
     (if n < 16 then [digit_char upper n]
      else hex_digits upper (n div 16) @ [digit_char upper (n mod 16)])"

fun dec_digits :: "nat \<Rightarrow> string" where
  "dec_digits n =
     (if n < 10 then [digit_char True n]
      else dec_digits (n div 10) @ [digit_char True (n mod 10)])"

declare hex_digits.simps [simp del] dec_digits.simps [simp del]

definition pad_field :: "bool \<Rightarrow> nat \<Rightarrow> string \<Rightarrow> string \<Rightarrow> string" where
  "pad_field zero width sign ds =
     (if zero then sign @ replicate (width - length sign - length ds) (CHR ''0'') @ ds
      else replicate (width - length sign - length ds) (CHR '' '') @ sign @ ds)"

definition conv_d :: "bool \<Rightarrow> nat \<Rightarrow> 32 word \<Rightarrow> string" where
  "conv_d zero width a =
     (if sint a < 0 then pad_field zero width ''-'' (dec_digits (nat (- sint a)))
      else pad_field zero width [] (dec_digits (nat (sint a))))"

definition conv_x :: "bool \<Rightarrow> bool \<Rightarrow> nat \<Rightarrow> 32 word \<Rightarrow> string" where
  "conv_x upper zero width a = pad_field zero width [] (hex_digits upper (unat a))"

definition is_digit :: "char \<Rightarrow> bool" where
  "is_digit c = ((of_char (CHR ''0'') :: nat) \<le> of_char c \<and> (of_char c :: nat) \<le> of_char (CHR ''9''))"

definition digit_val :: "char \<Rightarrow> nat" where
  "digit_val c = of_char c - of_char (CHR ''0'')"

datatype fmt_state = Literal | Conversion bool nat

fun format_string :: "fmt_state \<Rightarrow> string \<Rightarrow> 32 word list \<Rightarrow> string" where
  "format_string st [] args = []"
| "format_string Literal (c # fmt) args =
     (if c = CHR ''%'' then format_string (Conversion False 0) fmt args
      else c # format_string Literal fmt args)"
| "format_string (Conversion zero width) (c # fmt) args =
     (if c = CHR ''0'' \<and> width = 0 then format_string (Conversion True 0) fmt args
      else if is_digit c then format_string (Conversion zero (10 * width + digit_val c)) fmt args
      else if c = CHR ''%'' then c # format_string Literal fmt args
      else (case args of
              [] \<Rightarrow> []
            | a # rest \<Rightarrow>
                if c = CHR ''d'' then conv_d zero width a @ format_string Literal fmt rest
                else if c = CHR ''X'' then conv_x True zero width a @ format_string Literal fmt rest
                else if c = CHR ''x'' then conv_x False zero width a @ format_string Literal fmt rest
                else []))"

text \<open>\<^verbatim>\<open>vsnprintf(buf, sizeof(buf), fmt, args)\<close> with \<^verbatim>\<open>char buf[128]\<close>: at most 127
  characters are kept.\<close>

definition vsnprintf_128 :: "string \<Rightarrow> 32 word list \<Rightarrow> string" where
  "vsnprintf_128 fmt args = take 127 (format_string Literal fmt args)"

definition my_uart_transmit_buffer :: "string \<Rightarrow> hal_call list" where
  "my_uart_transmit_buffer buf = [HAL_UART_Transmit buf]"

definition my_printf :: "string \<Rightarrow> 32 word list \<Rightarrow> hal_call list" where
  "my_printf fmt args = my_uart_transmit_buffer (vsnprintf_128 fmt args)"

definition DEBUG_printf :: "string \<Rightarrow> 32 word list \<Rightarrow> hal_call list" where
  "DEBUG_printf fmt args =
     (let buf = vsnprintf_128 fmt args in
      my_printf ([LF, LF, LF] @ ''$$$$$$$$$ DEBUG print START $$$$$$$$$'' @ [CR, LF]) []
      @ my_uart_transmit_buffer buf
      @ my_printf (''$$$$$$$$$ DEBUG print END $$$$$$$$$$$'' @ [CR, LF, LF, LF]) [])"

section \<open>State of my\_can.c\<close>

text \<open>\<^verbatim>\<open>can_timings[]\<close> and \<^verbatim>\<open>baudrates_nbr\<close>.\<close>

definition can_timings :: "my_CAN_BitTiming list" where
  "can_timings =
   [\<lparr>my_CAN_BitTiming.baudrate = 5000, prescaler = 200, timeSeg1 = 34, timeSeg2 = 5\<rparr>,
    \<lparr>my_CAN_BitTiming.baudrate = 10000, prescaler = 100, timeSeg1 = 34, timeSeg2 = 5\<rparr>,
    \<lparr>my_CAN_BitTiming.baudrate = 20000, prescaler = 50, timeSeg1 = 34, timeSeg2 = 5\<rparr>,
    \<lparr>my_CAN_BitTiming.baudrate = 50000, prescaler = 20, timeSeg1 = 34, timeSeg2 = 5\<rparr>,
    \<lparr>my_CAN_BitTiming.baudrate = 100000, prescaler = 10, timeSeg1 = 34, timeSeg2 = 5\<rparr>,
    \<lparr>my_CAN_BitTiming.baudrate = 125000, prescaler = 8, timeSeg1 = 34, timeSeg2 = 5\<rparr>,
    \<lparr>my_CAN_BitTiming.baudrate = 200000, prescaler = 5, timeSeg1 = 34, timeSeg2 = 5\<rparr>,
    \<lparr>my_CAN_BitTiming.baudrate = 250000, prescaler = 4, timeSeg1 = 34, timeSeg2 = 5\<rparr>,
    \<lparr>my_CAN_BitTiming.baudrate = 400000, prescaler = 4, timeSeg1 = 19, timeSeg2 = 5\<rparr>,
    \<lparr>my_CAN_BitTiming.baudrate = 500000, prescaler = 2, timeSeg1 = 34, timeSeg2 = 5\<rparr>,
    \<lparr>my_CAN_BitTiming.baudrate = 800000, prescaler = 2, timeSeg1 = 19, timeSeg2 = 5\<rparr>,
    \<lparr>my_CAN_BitTiming.baudrate = 1000000, prescaler = 1, timeSeg1 = 34, timeSeg2 = 5\<rparr>]"

definition baudrates_nbr :: "8 word" where
  "baudrates_nbr = of_nat (length can_timings)"

text \<open>The module's static variables, together with the part of the global handle
  \<^verbatim>\<open>hfdcan1\<close> that it writes.\<close>

record can_state =
  hfdcan1_Init :: FDCAN_InitTypeDef
  software_CAN_buffer_overflow :: bool
  hardware_CAN_buffer_overflow :: bool
  head :: "16 word"
  tail :: "16 word"
  CAN_ring_buffer :: "my_CAN_Frame list"
  can_status :: my_CAN_Status
  sFilterConfig :: FDCAN_FilterTypeDef

text \<open>\<^verbatim>\<open>my_CAN_Frame frame = {0}\<close>.\<close>

definition zero_frame :: my_CAN_Frame where
  "zero_frame = \<lparr>Identifier = 0, DataLength = 0, Data = replicate 8 0\<rparr>"

text \<open>The static initialisers of my\_can.c. The handle and the filter structure belong to
  the HAL; their start-up contents are parameters.\<close>

definition power_on_state :: "FDCAN_InitTypeDef \<Rightarrow> FDCAN_FilterTypeDef \<Rightarrow> can_state" where
  "power_on_state init flt =
     \<lparr>hfdcan1_Init = init,
      software_CAN_buffer_overflow = False,
      hardware_CAN_buffer_overflow = False,
      head = 0,
      tail = 0,
      CAN_ring_buffer = replicate (nat SOFTWARE_CAN_BUFFER_SIZE) zero_frame,
      can_status = \<lparr>is_set = False, baudrate = 0, filter_id = 0, mask_id = 0\<rparr>,
      sFilterConfig = flt\<rparr>"

text \<open>An access outside an array is undefined behaviour in C; the model stops there.\<close>

datatype error = OutOfBounds

section \<open>Configuration (my\_can.c)\<close>

text \<open>\<^verbatim>\<open>my_CAN_manual_configuration\<close>. The loop index walks \<^verbatim>\<open>can_timings\<close> from entry 0 to
  entry \<^verbatim>\<open>baudrates_nbr - 1\<close>; the list argument holds the entries from index \<^verbatim>\<open>i\<close> on.
  The result is the returned status and the state after the call.\<close>

fun manual_configuration_loop ::
  "my_CAN_BitTiming list \<Rightarrow> 32 word \<Rightarrow> can_state \<Rightarrow> my_CAN_Status \<times> can_state" where
  "manual_configuration_loop [] baud s =
     (let st = \<lparr>is_set = False, baudrate = 0,
                filter_id = filter_id (can_status s), mask_id = mask_id (can_status s)\<rparr>
      in (st, s\<lparr>can_status := st\<rparr>))"
| "manual_configuration_loop (t # ts) baud s =
     (if my_CAN_BitTiming.baudrate t \<noteq> baud then manual_configuration_loop ts baud s
      else
        let s1 = s\<lparr>hfdcan1_Init := (hfdcan1_Init s)
                    \<lparr>NominalPrescaler := ucast (prescaler t),
                     NominalTimeSeg1 := ucast (timeSeg1 t),
                     NominalTimeSeg2 := ucast (timeSeg2 t)\<rparr>\<rparr>;
            st = \<lparr>is_set = True, baudrate = baud,
                  filter_id = filter_id (can_status s1), mask_id = mask_id (can_status s1)\<rparr>
        in (st, s1\<lparr>can_status := st\<rparr>))"

definition my_CAN_manual_configuration :: "32 word \<Rightarrow> can_state \<Rightarrow> my_CAN_Status \<times> can_state" where
  "my_CAN_manual_configuration baud s =
     manual_configuration_loop (take (unat baudrates_nbr) can_timings) baud s"

text \<open>\<^verbatim>\<open>check_Fifo\<close>. The bus is a parameter: \<open>bus init\<close> is the fill level of receive FIFO 0
  that the controller reports after it has run for \<^verbatim>\<open>WAIT_FOR_TRAFFIC\<close> milliseconds
  with the bit timing \<open>init\<close>.\<close>

definition check_Fifo :: "(FDCAN_InitTypeDef \<Rightarrow> 32 word) \<Rightarrow> can_state \<Rightarrow> bool \<times> hal_call list" where
  "check_Fifo bus s =
     (let level = bus (hfdcan1_Init s);
          evs = [HAL_FDCAN_Init (hfdcan1_Init s), HAL_FDCAN_Start (hfdcan1_Init s),
                 HAL_Delay WAIT_FOR_TRAFFIC, HAL_FDCAN_GetRxFifoFillLevel FDCAN_RX_FIFO0 level]
      in if level > 0 then (True, evs @ [HAL_FDCAN_Stop])
         else (False, evs @ [HAL_FDCAN_Stop]))"

text \<open>\<^verbatim>\<open>my_CAN_auto_configuration\<close>: the returned status, the state after the call and the
  HAL calls made, in order.\<close>

fun auto_configuration_loop ::
  "my_CAN_BitTiming list \<Rightarrow> bool \<Rightarrow> (FDCAN_InitTypeDef \<Rightarrow> 32 word) \<Rightarrow> can_state
     \<Rightarrow> my_CAN_Status \<times> can_state \<times> hal_call list" where
  "auto_configuration_loop [] to_print bus s =
     (let st = \<lparr>is_set = False, baudrate = 0,
                filter_id = filter_id (can_status s), mask_id = mask_id (can_status s)\<rparr>
      in (st, s\<lparr>can_status := st\<rparr>, []))"
| "auto_configuration_loop (t # ts) to_print bus s =
     (let ev1 = (if to_print
                 then my_printf (''Trying Baud Rate: %d'' @ [CR, LF]) [my_CAN_BitTiming.baudrate t]
                 else []);
          s1 = s\<lparr>hfdcan1_Init := (hfdcan1_Init s)
                    \<lparr>NominalPrescaler := ucast (prescaler t),
                     NominalTimeSeg1 := ucast (timeSeg1 t),
                     NominalTimeSeg2 := ucast (timeSeg2 t)\<rparr>\<rparr>;
          ev2 = [HAL_FDCAN_Init (hfdcan1_Init s1),
                 HAL_FDCAN_ConfigGlobalFilter FDCAN_ACCEPT_IN_RX_FIFO0 FDCAN_REJECT
                   FDCAN_REJECT_REMOTE FDCAN_REJECT_REMOTE];
          (found, ev3) = check_Fifo bus s1
      in if found then
           (let st = \<lparr>is_set = True, baudrate = my_CAN_BitTiming.baudrate t,
                      filter_id = filter_id (can_status s1), mask_id = mask_id (can_status s1)\<rparr>
            in (st, s1\<lparr>can_status := st\<rparr>, ev1 @ ev2 @ ev3))
         else
           (case auto_configuration_loop ts to_print bus s1 of
              (st, s2, evs) \<Rightarrow> (st, s2, ev1 @ ev2 @ ev3 @ evs)))"

definition my_CAN_auto_configuration ::
  "bool \<Rightarrow> (FDCAN_InitTypeDef \<Rightarrow> 32 word) \<Rightarrow> can_state \<Rightarrow> my_CAN_Status \<times> can_state \<times> hal_call list" where
  "my_CAN_auto_configuration to_print bus s =
     auto_configuration_loop (take (unat baudrates_nbr) can_timings) to_print bus s"

text \<open>\<^verbatim>\<open>my_CAN_set_filter_mask\<close>.\<close>

definition my_CAN_set_filter_mask :: "32 word \<Rightarrow> 32 word \<Rightarrow> can_state \<Rightarrow> my_CAN_Status \<times> can_state" where
  "my_CAN_set_filter_mask filter_id0 mask_id0 s =
     (let filter_id1 = filter_id0 AND 0x7FF;
          s1 = s\<lparr>sFilterConfig := (sFilterConfig s)\<lparr>FilterID1 := filter_id1\<rparr>\<rparr>;
          mask_id1 = mask_id0 AND 0x7FF;
          s2 = s1\<lparr>sFilterConfig := (sFilterConfig s1)\<lparr>FilterID2 := mask_id1\<rparr>\<rparr>;
          st = \<lparr>is_set = is_set (can_status s2), baudrate = baudrate (can_status s2),
                filter_id = filter_id1, mask_id = mask_id1\<rparr>
      in (st, s2\<lparr>can_status := st\<rparr>))"

section \<open>Start and stop (my\_can.c)\<close>

text \<open>\<^verbatim>\<open>my_CAN_start\<close>: the returned flag, the state after the call and the HAL calls made.\<close>

definition my_CAN_start :: "can_state \<Rightarrow> bool \<times> can_state \<times> hal_call list" where
  "my_CAN_start s =
     (if is_set (can_status s) then
        (let s1 = s\<lparr>sFilterConfig := (sFilterConfig s)
                      \<lparr>IdType := FDCAN_STANDARD_ID,
                       FilterIndex := 0,
                       FilterType := FDCAN_FILTER_MASK,
                       FilterConfig := FDCAN_FILTER_TO_RXFIFO0,
                       FilterID1 := filter_id (can_status s),
                       FilterID2 := mask_id (can_status s)\<rparr>\<rparr>
         in (True, s1,
             [HAL_FDCAN_Init (hfdcan1_Init s),
              HAL_FDCAN_ConfigGlobalFilter FDCAN_REJECT FDCAN_REJECT
                FDCAN_REJECT_REMOTE FDCAN_REJECT_REMOTE,
              HAL_FDCAN_ConfigFilter (sFilterConfig s1),
              HAL_FDCAN_Start (hfdcan1_Init s1),
              HAL_FDCAN_ActivateNotification FDCAN_IT_RX_FIFO0_NEW_MESSAGE 0]))
      else (False, s, []))"

text \<open>\<^verbatim>\<open>my_CAN_stop\<close>.\<close>

definition my_CAN_stop :: "can_state \<Rightarrow> can_state \<times> hal_call list" where
  "my_CAN_stop s =
     (s\<lparr>tail := 0, head := 0\<rparr>,
      [HAL_FDCAN_Stop, HAL_FDCAN_DeactivateNotification FDCAN_IT_RX_FIFO0_NEW_MESSAGE])"

section \<open>The software ring buffer (my\_can.c)\<close>

text \<open>The tail of the loop body of \<^verbatim>\<open>HAL_FDCAN_RxFifo0Callback\<close>: the frame is stored at
  \<^verbatim>\<open>head\<close> unless the buffer is full.\<close>

definition store_frame :: "my_CAN_Frame \<Rightarrow> can_state \<Rightarrow> error + can_state" where
  "store_frame frame s =
     (let next_head = (word_of_int ((uint (head s) + 1) AND (SOFTWARE_CAN_BUFFER_SIZE - 1)) :: 16 word)
      in if next_head = tail s then Inr (s\<lparr>software_CAN_buffer_overflow := True\<rparr>)
         else if uint (head s) < SOFTWARE_CAN_BUFFER_SIZE
         then Inr (s\<lparr>CAN_ring_buffer := (CAN_ring_buffer s)[unat (head s) := frame],
                     head := next_head\<rparr>)
         else Inl OutOfBounds)"

text \<open>\<^verbatim>\<open>read_frame_from_software_CAN_buffer\<close>: \<open>None\<close> for \<^verbatim>\<open>false\<close>, \<open>Some frame\<close> for
  \<^verbatim>\<open>true\<close> with the frame written through the pointer.\<close>

definition read_frame_from_software_CAN_buffer ::
  "can_state \<Rightarrow> error + (my_CAN_Frame option \<times> can_state)" where
  "read_frame_from_software_CAN_buffer s =
     (if head s = tail s then Inr (None, s)
      else if uint (tail s) < SOFTWARE_CAN_BUFFER_SIZE
      then Inr (Some (CAN_ring_buffer s ! unat (tail s)),
                s\<lparr>tail := word_of_int ((uint (tail s) + 1) AND (SOFTWARE_CAN_BUFFER_SIZE - 1))\<rparr>)
      else Inl OutOfBounds)"

section \<open>Frame ingest: the receive interrupt (my\_can.c)\<close>

text \<open>\<^verbatim>\<open>memcpy(dst, src, n)\<close> on two arrays: the first \<open>n\<close> bytes of \<open>dst\<close> are replaced.\<close>

definition memcpy :: "8 word list \<Rightarrow> 8 word list \<Rightarrow> nat \<Rightarrow> error + 8 word list" where
  "memcpy dst src n =
     (if n \<le> length dst \<and> n \<le> length src then Inr (take n src @ drop n dst)
      else Inl OutOfBounds)"

text \<open>The loop of \<^verbatim>\<open>HAL_FDCAN_RxFifo0Callback\<close>; the first argument is the number of
  iterations left (\<^verbatim>\<open>32 - i\<close>), the second the controller's receive FIFO 0. The result is
  the FIFO and the state after the loop and the HAL calls made.\<close>

fun rx_loop ::
  "nat \<Rightarrow> rx_message list \<Rightarrow> can_state \<Rightarrow> error + (rx_message list \<times> can_state \<times> hal_call list)" where
  "rx_loop 0 fifo s = Inr (fifo, s, [])"
| "rx_loop (Suc n) fifo s =
     (case HAL_FDCAN_GetRxMessage_FIFO0 fifo of
        (None, fifo1) \<Rightarrow> Inr (fifo1, s, [HAL_FDCAN_GetRxMessage FDCAN_RX_FIFO0 HAL_ERROR])
      | (Some (rxHeader, rxData), fifo1) \<Rightarrow>
          (case memcpy (Data zero_frame) rxData (unat (FDCAN_RxHeaderTypeDef.DataLength rxHeader)) of
             Inl e \<Rightarrow> Inl e
           | Inr d \<Rightarrow>
               (case store_frame
                       \<lparr>Identifier = FDCAN_RxHeaderTypeDef.Identifier rxHeader,
                        DataLength = ucast (FDCAN_RxHeaderTypeDef.DataLength rxHeader),
                        Data = d\<rparr> s of
                  Inl e \<Rightarrow> Inl e
                | Inr s1 \<Rightarrow>
                    (case rx_loop n fifo1 s1 of
                       Inl e \<Rightarrow> Inl e
                     | Inr (fifo2, s2, evs) \<Rightarrow>
                         Inr (fifo2, s2, HAL_FDCAN_GetRxMessage FDCAN_RX_FIFO0 HAL_OK # evs)))))"

text \<open>\<^verbatim>\<open>HAL_FDCAN_RxFifo0Callback\<close>; \<^verbatim>\<open>RxFifo0ITs\<close> is the set of interrupt flags that fired.\<close>

definition HAL_FDCAN_RxFifo0Callback ::
  "fdcan_it set \<Rightarrow> rx_message list \<Rightarrow> can_state
     \<Rightarrow> error + (rx_message list \<times> can_state \<times> hal_call list)" where
  "HAL_FDCAN_RxFifo0Callback RxFifo0ITs fifo s =
     (let (s1, ev1) =
            (if FDCAN_IT_RX_FIFO0_MESSAGE_LOST \<in> RxFifo0ITs
             then (s\<lparr>hardware_CAN_buffer_overflow := True\<rparr>,
                   [HAL_FDCAN_CLEAR_FLAG FDCAN_FLAG_RX_FIFO0_MESSAGE_LOST])
             else (s, []))
      in case rx_loop 32 fifo s1 of
           Inl e \<Rightarrow> Inl e
         | Inr (fifo1, s2, evs) \<Rightarrow> Inr (fifo1, s2, ev1 @ evs))"

section \<open>Frame report (my\_can.c)\<close>

text \<open>The inner loop of \<^verbatim>\<open>send_frame_over_UART\<close> over the indices \<^verbatim>\<open>i\<close> still to print;
  \<^verbatim>\<open>frame.Data\<close> has 8 elements.\<close>

fun print_data :: "my_CAN_Frame \<Rightarrow> nat list \<Rightarrow> error + hal_call list" where
  "print_data frame [] = Inr []"
| "print_data frame (i # idx) =
     (if i < 8 then
        (case print_data frame idx of
           Inl e \<Rightarrow> Inl e
         | Inr evs \<Rightarrow> Inr (my_printf '' %02X'' [ucast (Data frame ! i)] @ evs))
      else Inl OutOfBounds)"

text \<open>The body of the \<^verbatim>\<open>while\<close> loop of \<^verbatim>\<open>send_frame_over_UART\<close>.\<close>

definition print_frame :: "my_CAN_Frame \<Rightarrow> error + hal_call list" where
  "print_frame frame =
     (case print_data frame [0..<unat (DataLength frame)] of
        Inl e \<Rightarrow> Inl e
      | Inr evs \<Rightarrow>
          Inr (my_printf ''ID: 0x%03X, DLC: %d, Data:'' [Identifier frame, ucast (DataLength frame)]
               @ evs @ my_printf [CR, LF, LF] []))"

text \<open>The \<^verbatim>\<open>while\<close> loop of \<^verbatim>\<open>send_frame_over_UART\<close>; \<open>None\<close> stands for a loop that does
  not end. The second argument collects the HAL calls made so far.\<close>

partial_function (option) report_loop ::
  "can_state \<Rightarrow> hal_call list \<Rightarrow> (error + (can_state \<times> hal_call list)) option" where
  "report_loop s acc =
     (case read_frame_from_software_CAN_buffer s of
        Inl e \<Rightarrow> Some (Inl e)
      | Inr (None, s1) \<Rightarrow> Some (Inr (s1, acc))
      | Inr (Some frame, s1) \<Rightarrow>
          (case print_frame frame of
             Inl e \<Rightarrow> Some (Inl e)
           | Inr evs \<Rightarrow> report_loop s1 (acc @ evs)))"

declare report_loop.simps [code]

definition send_frame_over_UART :: "can_state \<Rightarrow> (error + (can_state \<times> hal_call list)) option" where
  "send_frame_over_UART s =
     (let (s1, ev1) =
            (if hardware_CAN_buffer_overflow s
             then (s\<lparr>hardware_CAN_buffer_overflow := False\<rparr>,
                   DEBUG_printf (''Hardware CAN FIFO overflow!'' @ [CR, LF]) [])
             else (s, []));
          (s2, ev2) =
            (if software_CAN_buffer_overflow s1
             then (s1\<lparr>software_CAN_buffer_overflow := False\<rparr>,
                   DEBUG_printf (''Software CAN buffer overflow!'' @ [CR, LF]) [])
             else (s1, []))
      in report_loop s2 (ev1 @ ev2))"

section \<open>Sequences of operations and observations\<close>

text \<open>Enqueuing a sequence of frames: the store step of the receive loop, once per frame.\<close>

fun store_frames :: "my_CAN_Frame list \<Rightarrow> can_state \<Rightarrow> error + can_state" where
  "store_frames [] s = Inr s"
| "store_frames (f # fs) s =
     (case store_frame f s of Inl e \<Rightarrow> Inl e | Inr s1 \<Rightarrow> store_frames fs s1)"

text \<open>Dequeuing \<open>n\<close> times: the results of \<open>n\<close> successive calls of
  \<^verbatim>\<open>read_frame_from_software_CAN_buffer\<close>.\<close>

fun read_frames :: "nat \<Rightarrow> can_state \<Rightarrow> error + (my_CAN_Frame option list \<times> can_state)" where
  "read_frames 0 s = Inr ([], s)"
| "read_frames (Suc n) s =
     (case read_frame_from_software_CAN_buffer s of
        Inl e \<Rightarrow> Inl e
      | Inr (r, s1) \<Rightarrow>
          (case read_frames n s1 of
             Inl e \<Rightarrow> Inl e
           | Inr (rs, s2) \<Rightarrow> Inr (r # rs, s2)))"

text \<open>The indices stay inside the array that was declared with
  \<^verbatim>\<open>SOFTWARE_CAN_BUFFER_SIZE\<close> slots.\<close>

definition can_invar :: "can_state \<Rightarrow> bool" where
  "can_invar s \<longleftrightarrow>
     unat (head s) < 256 \<and> unat (tail s) < 256 \<and> length (CAN_ring_buffer s) = 256"

text \<open>The number of frames written and not yet read, and those frames, oldest first.\<close>

definition occupancy :: "can_state \<Rightarrow> nat" where
  "occupancy s = (unat (head s) + 256 - unat (tail s)) mod 256"

definition unread :: "can_state \<Rightarrow> my_CAN_Frame list" where
  "unread s = map (\<lambda>i. CAN_ring_buffer s ! ((unat (tail s) + i) mod 256)) [0..<occupancy s]"

text \<open>Observations on a sequence of HAL calls.\<close>

definition successful_reads :: "hal_call list \<Rightarrow> nat" where
  "successful_reads evs = length (filter ((=) (HAL_FDCAN_GetRxMessage FDCAN_RX_FIFO0 HAL_OK)) evs)"

fun is_read :: "hal_call \<Rightarrow> bool" where
  "is_read (HAL_FDCAN_GetRxMessage loc st) = True"
| "is_read _ = False"

fun is_start :: "hal_call \<Rightarrow> bool" where
  "is_start (HAL_FDCAN_Start init) = True"
| "is_start _ = False"

fun is_activate :: "hal_call \<Rightarrow> bool" where
  "is_activate (HAL_FDCAN_ActivateNotification it n) = True"
| "is_activate _ = False"

fun is_config_filter :: "hal_call \<Rightarrow> bool" where
  "is_config_filter (HAL_FDCAN_ConfigFilter flt) = True"
| "is_config_filter _ = False"

text \<open>The bit timings under which the controller was started, in order.\<close>

fun started_with :: "hal_call list \<Rightarrow> FDCAN_InitTypeDef list" where
  "started_with [] = []"
| "started_with (HAL_FDCAN_Start init # evs) = init # started_with evs"
| "started_with (_ # evs) = started_with evs"

text \<open>The controller timing that a table entry stands for.\<close>

definition timing_of :: "my_CAN_BitTiming \<Rightarrow> FDCAN_InitTypeDef" where
  "timing_of t =
     \<lparr>NominalPrescaler = ucast (prescaler t),
      NominalTimeSeg1 = ucast (timeSeg1 t),
      NominalTimeSeg2 = ucast (timeSeg2 t)\<rparr>"

text \<open>The report of one frame as the specification words it: the line
  \<^verbatim>\<open>ID: 0x%03X, DLC: %d, Data:\<close>, then one \<^verbatim>\<open> %02X\<close> for each of the first
  \<^verbatim>\<open>DataLength\<close> payload bytes, then the end of the line and a blank line.\<close>

definition upper_hex :: "nat \<Rightarrow> nat \<Rightarrow> string" where
  "upper_hex width n =
     replicate (width - length (hex_digits True n)) (CHR ''0'') @ hex_digits True n"

definition frame_report :: "my_CAN_Frame \<Rightarrow> hal_call list" where
  "frame_report f =
     HAL_UART_Transmit
       (''ID: 0x'' @ upper_hex 3 (unat (Identifier f)) @ '', DLC: ''
        @ dec_digits (unat (DataLength f)) @ '', Data:'')
     # map (\<lambda>b. HAL_UART_Transmit ('' '' @ upper_hex 2 (unat b)))
         (take (unat (DataLength f)) (Data f))
     @ [HAL_UART_Transmit [CR, LF, LF]]"

text \<open>Concrete values used to exercise the theorems.\<close>

definition example_init :: FDCAN_InitTypeDef where
  "example_init = \<lparr>NominalPrescaler = 1, NominalTimeSeg1 = 1, NominalTimeSeg2 = 1\<rparr>"

definition example_filter :: FDCAN_FilterTypeDef where
  "example_filter =
     \<lparr>IdType = FDCAN_EXTENDED_ID, FilterIndex = 3, FilterType = FDCAN_FILTER_RANGE,
      FilterConfig = FDCAN_FILTER_DISABLE, FilterID1 = 0, FilterID2 = 0\<rparr>"

definition example_state :: can_state where
  "example_state = power_on_state example_init example_filter"

definition frame_A :: my_CAN_Frame where
  "frame_A = \<lparr>Identifier = 0x123, DataLength = 3, Data = [0xAA, 0xBB, 0xCC, 0, 0, 0, 0, 0]\<rparr>"

definition frame_B :: my_CAN_Frame where
  "frame_B = \<lparr>Identifier = 0x7FF, DataLength = 0, Data = [0, 0, 0, 0, 0, 0, 0, 0]\<rparr>"

definition frame_C :: my_CAN_Frame where
  "frame_C = \<lparr>Identifier = 0x001, DataLength = 8, Data = [1, 2, 3, 4, 5, 6, 7, 8]\<rparr>"

definition example_configured :: can_state where
  "example_configured =
     example_state\<lparr>can_status := \<lparr>is_set = True, baudrate = 500000, filter_id = 0x123, mask_id = 0x7FF\<rparr>\<rparr>"

text \<open>A bus without traffic, and a bus with traffic at 20 kbit/s only.\<close>

definition quiet_bus :: "FDCAN_InitTypeDef \<Rightarrow> 32 word" where
  "quiet_bus init = 0"

definition bus_20k :: "FDCAN_InitTypeDef \<Rightarrow> 32 word" where
  "bus_20k init = (if NominalPrescaler init = 50 then 2 else 0)"

text \<open>A state with frame A pending and the hardware-overflow flag latched.\<close>

definition example_pending :: can_state where
  "example_pending =
     example_state\<lparr>CAN_ring_buffer := (CAN_ring_buffer example_state)[0 := frame_A],
                    head := 1, hardware_CAN_buffer_overflow := True\<rparr>"

text \<open>The frame that the loop body of \<^verbatim>\<open>HAL_FDCAN_RxFifo0Callback\<close> builds from a message.\<close>

definition received_frame :: "rx_message \<Rightarrow> my_CAN_Frame" where
  "received_frame m =
     \<lparr>Identifier = FDCAN_RxHeaderTypeDef.Identifier (header m),
      DataLength = ucast (FDCAN_RxHeaderTypeDef.DataLength (header m)),
      Data = take (unat (FDCAN_RxHeaderTypeDef.DataLength (header m)))
               (take 8 (payload m @ replicate 8 0))
             @ drop (unat (FDCAN_RxHeaderTypeDef.DataLength (header m))) (replicate 8 0)\<rparr>"

text \<open>Concrete messages and a state with an overlong frame pending.\<close>

definition message :: "32 word \<Rightarrow> 32 word \<Rightarrow> 8 word list \<Rightarrow> rx_message" where
  "message ident len bytes =
     \<lparr>header = \<lparr>FDCAN_RxHeaderTypeDef.Identifier = ident, DataLength = len\<rparr>, payload = bytes\<rparr>"

definition example_overlong :: can_state where
  "example_overlong =
     example_state\<lparr>CAN_ring_buffer :=
                      (CAN_ring_buffer example_state)[0 := frame_A\<lparr>DataLength := 9\<rparr>],
                    head := 1\<rparr>"

section \<open>Index arithmetic\<close>

lemma and_255: "(x::int) AND 255 = x mod 256"
proof -
  have "x AND mask 8 = x mod 2 ^ 8"
    by (simp only: take_bit_eq_mask [symmetric] take_bit_eq_mod)
  moreover have "(mask 8 :: int) = 255"
    by (simp add: mask_eq_exp_minus_1)
  ultimately show ?thesis by simp
qed

lemma next_index:
  "unat (word_of_int ((uint h + 1) AND (SOFTWARE_CAN_BUFFER_SIZE - 1)) :: 16 word) = Suc (unat h) mod 256"
proof -
  let ?v = "(uint h + 1) mod 256"
  have b: "0 \<le> ?v" "?v < 256" by simp_all
  have "uint (word_of_int ?v :: 16 word) = ?v"
    using b by (simp add: uint_word_of_int take_bit_eq_mod)
  then have "unat (word_of_int ?v :: 16 word) = nat ?v"
    by (simp only: unat_eq_nat_uint)
  also have "\<dots> = (nat (uint h) + 1) mod 256"
    by (simp add: nat_mod_distrib nat_add_distrib del: nat_uint_eq)
  finally show ?thesis by (simp add: SOFTWARE_CAN_BUFFER_SIZE_def and_255)
qed

lemma mod256: "x < 512 \<Longrightarrow> x mod 256 = (if x < 256 then x else x - (256::nat))"
  by (simp add: le_mod_geq)

lemma ar_full: "h < 256 \<Longrightarrow> t < 256 \<Longrightarrow> (Suc h mod 256 = t) = ((h + 256 - t) mod 256 = (255::nat))"
  by (auto simp: mod256)

lemma ar_succ: "h < 256 \<Longrightarrow> t < 256 \<Longrightarrow> (h + 256 - t) mod 256 < (255::nat) \<Longrightarrow>
  (Suc h mod 256 + 256 - t) mod 256 = Suc ((h + 256 - t) mod 256)"
  by (auto simp: mod256 split: if_splits)

lemma ar_slot_ne: "h < 256 \<Longrightarrow> t < 256 \<Longrightarrow> i < (h + 256 - t) mod 256 \<Longrightarrow> (t + i) mod 256 \<noteq> (h::nat)"
  by (auto simp: mod256 split: if_splits)

lemma ar_slot_eq: "h < 256 \<Longrightarrow> t < 256 \<Longrightarrow> (t + (h + 256 - t) mod 256) mod 256 = (h::nat)"
  by (auto simp: mod256 split: if_splits)

lemma ar_pred: "h < 256 \<Longrightarrow> t < 256 \<Longrightarrow> h \<noteq> t \<Longrightarrow>
  (h + 256 - Suc t mod 256) mod 256 = (h + 256 - t) mod 256 - (1::nat)"
  by (auto simp: mod256 split: if_splits)

lemma ar_shift: "(Suc t mod 256 + i) mod 256 = Suc (t + i) mod (256::nat)"
  by (simp add: mod_simps)

lemma ar_empty: "h < 256 \<Longrightarrow> t < 256 \<Longrightarrow> ((h + 256 - t) mod 256 = (0::nat)) = (h = t)"
  by (auto simp: mod256 split: if_splits)

lemma uint_less_size: "(uint (h::16 word) < SOFTWARE_CAN_BUFFER_SIZE) = (unat h < 256)"
  by (simp add: SOFTWARE_CAN_BUFFER_SIZE_def unat_eq_nat_uint nat_less_iff del: nat_uint_eq)

lemma next_eq_iff:
  "((word_of_int ((uint h + 1) AND (SOFTWARE_CAN_BUFFER_SIZE - 1)) :: 16 word) = t)
     = (Suc (unat h) mod 256 = unat t)"
  by (simp add: word_unat_eq_iff next_index)

lemma occupancy_less: "occupancy s < 256"
  by (simp add: occupancy_def)

lemma length_unread: "length (unread s) = occupancy s"
  by (simp add: unread_def)

lemma occupancy_0_iff: "can_invar s \<Longrightarrow> (occupancy s = 0) = (head s = tail s)"
  by (simp add: can_invar_def occupancy_def ar_empty word_unat_eq_iff)

lemma store_frame_full:
  assumes "can_invar s" and "occupancy s = 255"
  shows "store_frame f s = Inr (s\<lparr>software_CAN_buffer_overflow := True\<rparr>)"
  using assms
  by (simp add: store_frame_def next_eq_iff can_invar_def occupancy_def ar_full)

lemma store_frame_room:
  assumes inv: "can_invar s" and room: "occupancy s < 255"
  shows "\<exists>s'. store_frame f s = Inr s' \<and> unread s' = unread s @ [f]
           \<and> occupancy s' = Suc (occupancy s) \<and> tail s' = tail s
           \<and> software_CAN_buffer_overflow s' = software_CAN_buffer_overflow s
           \<and> hardware_CAN_buffer_overflow s' = hardware_CAN_buffer_overflow s
           \<and> can_status s' = can_status s \<and> sFilterConfig s' = sFilterConfig s
           \<and> hfdcan1_Init s' = hfdcan1_Init s
           \<and> head s' = word_of_int ((uint (head s) + 1) AND (SOFTWARE_CAN_BUFFER_SIZE - 1))
           \<and> can_invar s'"
proof -
  let ?h = "unat (head s)" and ?t = "unat (tail s)"
  let ?nh = "word_of_int ((uint (head s) + 1) AND (SOFTWARE_CAN_BUFFER_SIZE - 1)) :: 16 word"
  let ?s' = "s\<lparr>CAN_ring_buffer := (CAN_ring_buffer s)[?h := f], head := ?nh\<rparr>"
  have h: "?h < 256" and t: "?t < 256" and len: "length (CAN_ring_buffer s) = 256"
    using inv by (simp_all add: can_invar_def)
  have notfull: "Suc ?h mod 256 \<noteq> ?t"
    using room h t by (simp add: occupancy_def ar_full)
  have st: "store_frame f s = Inr ?s'"
    using notfull h by (simp add: store_frame_def next_eq_iff uint_less_size)
  have occ: "occupancy ?s' = Suc (occupancy s)"
    using room h t by (simp add: occupancy_def next_index ar_succ)
  have old: "(CAN_ring_buffer s)[?h := f] ! ((?t + i) mod 256) = CAN_ring_buffer s ! ((?t + i) mod 256)"
    if "i < occupancy s" for i
    using that h t ar_slot_ne [of ?h ?t i] by (simp add: occupancy_def)
  have new: "(CAN_ring_buffer s)[?h := f] ! ((?t + occupancy s) mod 256) = f"
    using h t len by (simp add: occupancy_def ar_slot_eq)
  have unr: "unread ?s' = unread s @ [f]"
    unfolding unread_def occ using old new by simp
  have invar': "can_invar ?s'"
    using inv by (simp add: can_invar_def next_index)
  show ?thesis
    using st occ unr invar' by (intro exI [of _ ?s']) simp
qed

lemma read_frame_empty:
  assumes "can_invar s" and "occupancy s = 0"
  shows "read_frame_from_software_CAN_buffer s = Inr (None, s)"
  using assms by (simp add: read_frame_from_software_CAN_buffer_def occupancy_0_iff)

lemma read_frame_nonempty:
  assumes inv: "can_invar s" and ne: "unread s = x # xs"
  shows "\<exists>s'. read_frame_from_software_CAN_buffer s = Inr (Some x, s') \<and> unread s' = xs
           \<and> can_invar s' \<and> (\<exists>nt. s' = s\<lparr>tail := nt\<rparr>)"
proof -
  let ?h = "unat (head s)" and ?t = "unat (tail s)"
  let ?nt = "word_of_int ((uint (tail s) + 1) AND (SOFTWARE_CAN_BUFFER_SIZE - 1)) :: 16 word"
  let ?s' = "s\<lparr>tail := ?nt\<rparr>"
  have h: "?h < 256" and t: "?t < 256"
    using inv by (simp_all add: can_invar_def)
  have pos: "occupancy s = Suc (length xs)"
    using ne length_unread [of s] by simp
  then have neq: "head s \<noteq> tail s"
    using occupancy_0_iff [OF inv] by auto
  then have neq': "?h \<noteq> ?t"
    by (simp add: word_unat_eq_iff)
  have idx: "[0..<Suc (length xs)] = 0 # map Suc [0..<length xs]"
    by (simp add: upt_conv_Cons map_Suc_upt del: upt_Suc)
  have exp: "unread s = CAN_ring_buffer s ! (?t mod 256)
               # map (\<lambda>i. CAN_ring_buffer s ! (Suc (?t + i) mod 256)) [0..<length xs]"
    unfolding unread_def pos idx by (simp add: comp_def)
  have first: "CAN_ring_buffer s ! ?t = x"
    using ne exp t by simp
  have rd: "read_frame_from_software_CAN_buffer s = Inr (Some x, ?s')"
    using neq t first by (simp add: read_frame_from_software_CAN_buffer_def uint_less_size)
  have occ: "occupancy ?s' = length xs"
    using pos h t neq' by (simp add: occupancy_def next_index ar_pred)
  have "xs = map (\<lambda>i. CAN_ring_buffer s ! (Suc (?t + i) mod 256)) [0..<length xs]"
    using ne exp by simp
  then have unr: "unread ?s' = xs"
    unfolding unread_def occ by (simp add: next_index ar_shift)
  have invar': "can_invar ?s'"
    using inv by (simp add: can_invar_def next_index)
  show ?thesis
    using rd unr invar' by (intro exI [of _ ?s']) auto
qed

lemma invar_flag [simp]:
  "can_invar (s\<lparr>software_CAN_buffer_overflow := b\<rparr>) = can_invar s"
  "can_invar (s\<lparr>hardware_CAN_buffer_overflow := b\<rparr>) = can_invar s"
  by (simp_all add: can_invar_def)

lemma occupancy_flag [simp]:
  "occupancy (s\<lparr>software_CAN_buffer_overflow := b\<rparr>) = occupancy s"
  "occupancy (s\<lparr>hardware_CAN_buffer_overflow := b\<rparr>) = occupancy s"
  by (simp_all add: occupancy_def)

lemma unread_flag [simp]:
  "unread (s\<lparr>software_CAN_buffer_overflow := b\<rparr>) = unread s"
  "unread (s\<lparr>hardware_CAN_buffer_overflow := b\<rparr>) = unread s"
  by (simp_all add: unread_def)

lemma store_frame_total:
  assumes "can_invar s"
  shows "\<exists>s'. store_frame f s = Inr s' \<and> can_invar s' \<and> tail s' = tail s
           \<and> hardware_CAN_buffer_overflow s' = hardware_CAN_buffer_overflow s
           \<and> (unread s' = unread s @ [f] \<or> unread s' = unread s \<and> software_CAN_buffer_overflow s')"
proof (cases "occupancy s < 255")
  case True
  from store_frame_room [OF assms True, of f] show ?thesis by auto
next
  case False
  then have "occupancy s = 255" using occupancy_less [of s] by simp
  from store_frame_full [OF assms this, of f] assms show ?thesis by simp
qed

lemma store_frames_spec:
  assumes "can_invar s"
  shows "\<exists>s'. store_frames fs s = Inr s' \<and> can_invar s' \<and> tail s' = tail s
           \<and> unread s' = unread s @ take (255 - occupancy s) fs
           \<and> software_CAN_buffer_overflow s'
               = (software_CAN_buffer_overflow s \<or> 255 - occupancy s < length fs)"
  using assms
proof (induction fs arbitrary: s)
  case Nil
  then show ?case by simp
next
  case (Cons f fs)
  show ?case
  proof (cases "occupancy s < 255")
    case True
    from store_frame_room [OF Cons.prems True, of f] obtain s1 where
      s1: "store_frame f s = Inr s1" "unread s1 = unread s @ [f]"
          "occupancy s1 = Suc (occupancy s)" "tail s1 = tail s"
          "software_CAN_buffer_overflow s1 = software_CAN_buffer_overflow s" "can_invar s1"
      by blast
    from Cons.IH [OF s1(6)] obtain s' where
      s': "store_frames fs s1 = Inr s'" "can_invar s'" "tail s' = tail s1"
          "unread s' = unread s1 @ take (255 - occupancy s1) fs"
          "software_CAN_buffer_overflow s'
             = (software_CAN_buffer_overflow s1 \<or> 255 - occupancy s1 < length fs)"
      by blast
    have "255 - occupancy s = Suc (255 - occupancy s1)"
      using True s1(3) by simp
    then have tk: "take (255 - occupancy s) (f # fs) = f # take (255 - occupancy s1) fs"
      by simp
    show ?thesis
      using s1 s' tk True by (intro exI [of _ s']) auto
  next
    case False
    then have full: "occupancy s = 255" using occupancy_less [of s] by simp
    let ?s1 = "s\<lparr>software_CAN_buffer_overflow := True\<rparr>"
    have s1: "store_frame f s = Inr ?s1"
      by (rule store_frame_full [OF Cons.prems full])
    have "can_invar ?s1" using Cons.prems by simp
    from Cons.IH [OF this] obtain s' where
      s': "store_frames fs ?s1 = Inr s'" "can_invar s'" "tail s' = tail ?s1"
          "unread s' = unread ?s1 @ take (255 - occupancy ?s1) fs"
          "software_CAN_buffer_overflow s'
             = (software_CAN_buffer_overflow ?s1 \<or> 255 - occupancy ?s1 < length fs)"
      by blast
    show ?thesis
      using s1 s' full by (intro exI [of _ s']) simp
  qed
qed

lemma read_frames_spec:
  assumes "can_invar s"
  shows "\<exists>s'. read_frames n s
             = Inr (map Some (take n (unread s)) @ replicate (n - occupancy s) None, s')
           \<and> can_invar s' \<and> unread s' = drop n (unread s)"
  using assms
proof (induction n arbitrary: s)
  case 0
  then show ?case by simp
next
  case (Suc n)
  show ?case
  proof (cases "unread s")
    case Nil
    then have e: "occupancy s = 0" using length_unread [of s] by simp
    have rd: "read_frame_from_software_CAN_buffer s = Inr (None, s)"
      by (rule read_frame_empty [OF Suc.prems e])
    from Suc.IH [OF Suc.prems] obtain s' where
      "read_frames n s = Inr (map Some (take n (unread s)) @ replicate (n - occupancy s) None, s')"
      "can_invar s'" "unread s' = drop n (unread s)"
      by blast
    then show ?thesis
      using rd Nil e by (intro exI [of _ s']) (simp add: replicate_append_same)
  next
    case (Cons x xs)
    from read_frame_nonempty [OF Suc.prems Cons] obtain s1 where
      s1: "read_frame_from_software_CAN_buffer s = Inr (Some x, s1)" "unread s1 = xs" "can_invar s1"
      by blast
    have occ: "occupancy s = Suc (occupancy s1)"
      using Cons s1(2) length_unread [of s] length_unread [of s1] by simp
    from Suc.IH [OF s1(3)] obtain s' where
      "read_frames n s1 = Inr (map Some (take n (unread s1)) @ replicate (n - occupancy s1) None, s')"
      "can_invar s'" "unread s' = drop n (unread s1)"
      by blast
    then show ?thesis
      using s1 Cons occ by (intro exI [of _ s']) simp
  qed
qed

section \<open>The state after power-on\<close>

lemma invar_power_on: "can_invar (power_on_state init flt)"
  by (simp add: can_invar_def power_on_state_def SOFTWARE_CAN_BUFFER_SIZE_def)

lemma occupancy_power_on: "occupancy (power_on_state init flt) = 0"
  by (simp add: occupancy_def power_on_state_def)

lemma unread_power_on: "unread (power_on_state init flt) = []"
  by (simp add: unread_def occupancy_power_on)

section \<open>FIFO order of the ring buffer\<close>

text \<open>Claim C2. From every state that satisfies the index invariant, enqueuing a sequence
  of frames succeeds; the buffer then holds the frames that were pending before,
  followed by the frames of the sequence that found room (all of them when there is no
  overflow, since \<open>take\<close> of a long enough prefix is the list itself), in the order
  of enqueuing. Dequeuing once per pending frame returns exactly these frames, oldest
  first, and one further dequeue reports an empty buffer.\<close>

theorem fifo_order:
  assumes "can_invar s"
  shows "\<exists>s1 s2. store_frames fs s = Inr s1
           \<and> unread s1 = unread s @ take (255 - length (unread s)) fs
           \<and> read_frames (Suc (length (unread s1))) s1 = Inr (map Some (unread s1) @ [None], s2)"
proof -
  from store_frames_spec [OF assms, of fs] obtain s1 where
    s1: "store_frames fs s = Inr s1" "can_invar s1"
        "unread s1 = unread s @ take (255 - occupancy s) fs"
    by blast
  let ?n = "Suc (length (unread s1))"
  from read_frames_spec [OF s1(2), of ?n] obtain s2 where
    r: "read_frames ?n s1
          = Inr (map Some (take ?n (unread s1)) @ replicate (?n - occupancy s1) None, s2)"
    by blast
  have "replicate (?n - occupancy s1) (None :: my_CAN_Frame option) = [None]"
    by (simp add: length_unread)
  with r have r': "read_frames ?n s1 = Inr (map Some (unread s1) @ [None], s2)"
    by (simp del: read_frames.simps)
  have "unread s1 = unread s @ take (255 - length (unread s)) fs"
    using s1(3) by (simp add: length_unread)
  with s1(1) r' show ?thesis by blast
qed

text \<open>Enqueuing A, B, C into the empty buffer and dequeuing four times yields A, B, C
  and then "empty".\<close>

theorem fifo_order_witness:
  "\<exists>s1 s2. store_frames [frame_A, frame_B, frame_C] example_state = Inr s1
     \<and> read_frames 4 s1 = Inr ([Some frame_A, Some frame_B, Some frame_C, None], s2)"
proof -
  have inv: "can_invar example_state"
    by (simp add: example_state_def invar_power_on)
  from fifo_order [OF inv, of "[frame_A, frame_B, frame_C]"] obtain s1 s2 where
    a: "store_frames [frame_A, frame_B, frame_C] example_state = Inr s1"
    and b: "unread s1 = unread example_state
              @ take (255 - length (unread example_state)) [frame_A, frame_B, frame_C]"
    and c: "read_frames (Suc (length (unread s1))) s1 = Inr (map Some (unread s1) @ [None], s2)"
    by blast
  have u: "unread s1 = [frame_A, frame_B, frame_C]"
    using b by (simp add: example_state_def unread_power_on)
  have "Suc (length (unread s1)) = 4"
    by (simp add: u)
  with c have "read_frames 4 s1 = Inr (map Some (unread s1) @ [None], s2)"
    by (simp only:)
  then have "read_frames 4 s1 = Inr ([Some frame_A, Some frame_B, Some frame_C, None], s2)"
    by (simp only: u list.map append.simps)
  with a show ?thesis by blast
qed

section \<open>Capacity of the ring buffer\<close>

text \<open>Claim C1, amended. The buffer has \<^verbatim>\<open>SOFTWARE_CAN_BUFFER_SIZE\<close> = 256 slots, of which
  one always stays free, so that a full buffer differs from an empty one: it holds at most
  255 unread frames. An enqueue into a buffer with fewer than 255 unread frames appends the
  frame and leaves the overflow flag as it was; an enqueue into a buffer with 255 unread
  frames only sets the software-overflow flag. In both cases the unread frames stay as
  they were, so no unread slot is overwritten. Starting from an empty buffer, 255 enqueues
  all succeed, the 256th is dropped and sets the flag, and after exactly one dequeue (which
  returns the oldest frame) the next enqueue succeeds.\<close>

theorem ring_capacity:
  assumes inv: "can_invar s"
  shows "(\<exists>s'. store_frame f s = Inr s' \<and> can_invar s' \<and>
            (if length (unread s) < 255
             then unread s' = unread s @ [f]
                  \<and> software_CAN_buffer_overflow s' = software_CAN_buffer_overflow s
             else s' = s\<lparr>software_CAN_buffer_overflow := True\<rparr> \<and> unread s' = unread s))
       \<and> (head s = tail s \<and> length fs = 255 \<longrightarrow>
            (\<exists>s1 s2 s3. store_frames fs s = Inr s1 \<and> unread s1 = fs
               \<and> software_CAN_buffer_overflow s1 = software_CAN_buffer_overflow s
               \<and> store_frame g s1 = Inr (s1\<lparr>software_CAN_buffer_overflow := True\<rparr>)
               \<and> read_frame_from_software_CAN_buffer (s1\<lparr>software_CAN_buffer_overflow := True\<rparr>)
                   = Inr (Some (hd fs), s2)
               \<and> store_frame g' s2 = Inr s3 \<and> unread s3 = tl fs @ [g']))"
proof (intro conjI impI)
  show "\<exists>s'. store_frame f s = Inr s' \<and> can_invar s' \<and>
            (if length (unread s) < 255
             then unread s' = unread s @ [f]
                  \<and> software_CAN_buffer_overflow s' = software_CAN_buffer_overflow s
             else s' = s\<lparr>software_CAN_buffer_overflow := True\<rparr> \<and> unread s' = unread s)"
  proof (cases "occupancy s < 255")
    case True
    from store_frame_room [OF inv True, of f] True show ?thesis
      by (auto simp: length_unread)
  next
    case False
    then have "occupancy s = 255" using occupancy_less [of s] by simp
    from store_frame_full [OF inv this, of f] inv False show ?thesis
      by (simp add: length_unread)
  qed
next
  assume a: "head s = tail s \<and> length fs = 255"
  then have e: "occupancy s = 0"
    using occupancy_0_iff [OF inv] by simp
  then have u: "unread s = []"
    using length_unread [of s] by simp
  from store_frames_spec [OF inv, of fs] obtain s1 where
    s1: "store_frames fs s = Inr s1" "can_invar s1"
        "unread s1 = unread s @ take (255 - occupancy s) fs"
        "software_CAN_buffer_overflow s1
           = (software_CAN_buffer_overflow s \<or> 255 - occupancy s < length fs)"
    by blast
  have u1: "unread s1 = fs" using s1(3) u e a by simp
  have fl: "software_CAN_buffer_overflow s1 = software_CAN_buffer_overflow s"
    using s1(4) e a by simp
  have full: "occupancy s1 = 255"
    using u1 a length_unread [of s1] by simp
  let ?s1 = "s1\<lparr>software_CAN_buffer_overflow := True\<rparr>"
  have drop: "store_frame g s1 = Inr ?s1"
    by (rule store_frame_full [OF s1(2) full])
  have ne: "fs = hd fs # tl fs"
    using a by (cases fs) simp_all
  have "unread ?s1 = hd fs # tl fs" using u1 ne by simp
  from read_frame_nonempty [OF _ this] s1(2) obtain s2 where
    s2: "read_frame_from_software_CAN_buffer ?s1 = Inr (Some (hd fs), s2)"
        "unread s2 = tl fs" "can_invar s2"
    by auto
  have "occupancy s2 < 255"
    using s2(2) a length_unread [of s2] by simp
  from store_frame_room [OF s2(3) this, of g'] obtain s3 where
    s3: "store_frame g' s2 = Inr s3" "unread s3 = unread s2 @ [g']"
    by blast
  show "\<exists>s1 s2 s3. store_frames fs s = Inr s1 \<and> unread s1 = fs
               \<and> software_CAN_buffer_overflow s1 = software_CAN_buffer_overflow s
               \<and> store_frame g s1 = Inr (s1\<lparr>software_CAN_buffer_overflow := True\<rparr>)
               \<and> read_frame_from_software_CAN_buffer (s1\<lparr>software_CAN_buffer_overflow := True\<rparr>)
                   = Inr (Some (hd fs), s2)
               \<and> store_frame g' s2 = Inr s3 \<and> unread s3 = tl fs @ [g']"
    using s1(1) u1 fl drop s2(1) s3 s2(2) by (intro exI [of _ s1] exI [of _ s2] exI [of _ s3]) simp
qed

theorem ring_capacity_witness:
  "\<exists>s1 s2 s3. store_frames (replicate 255 frame_A) example_state = Inr s1
     \<and> unread s1 = replicate 255 frame_A
     \<and> \<not> software_CAN_buffer_overflow s1
     \<and> store_frame frame_B s1 = Inr (s1\<lparr>software_CAN_buffer_overflow := True\<rparr>)
     \<and> read_frame_from_software_CAN_buffer (s1\<lparr>software_CAN_buffer_overflow := True\<rparr>)
         = Inr (Some frame_A, s2)
     \<and> store_frame frame_C s2 = Inr s3 \<and> unread s3 = replicate 254 frame_A @ [frame_C]"
proof -
  have inv: "can_invar example_state"
    by (simp add: example_state_def invar_power_on)
  have e: "head example_state = tail example_state \<and> length (replicate 255 frame_A) = 255"
    by (simp add: example_state_def power_on_state_def)
  have f: "\<not> software_CAN_buffer_overflow example_state"
    by (simp add: example_state_def power_on_state_def)
  have h: "hd (replicate 255 frame_A) = frame_A" by simp
  have t: "tl (replicate 255 frame_A) = replicate 254 frame_A" by simp
  from ring_capacity [OF inv, of _ "replicate 255 frame_A" frame_B frame_C] e
  show ?thesis unfolding h t using f by auto
qed

text \<open>Claim C1 as stated, with N = \<^verbatim>\<open>SOFTWARE_CAN_BUFFER_SIZE\<close>: enqueuing N frames into
  the empty buffer after power-on does not store all N; the overflow flag is already set
  and only 255 frames are pending.\<close>

theorem ring_capacity_counterexample:
  "\<not> isl (store_frames (replicate (nat SOFTWARE_CAN_BUFFER_SIZE) frame_A) example_state)
   \<and> software_CAN_buffer_overflow
       (projr (store_frames (replicate (nat SOFTWARE_CAN_BUFFER_SIZE) frame_A) example_state))
   \<and> length (unread
       (projr (store_frames (replicate (nat SOFTWARE_CAN_BUFFER_SIZE) frame_A) example_state)))
       = 255"
proof -
  have inv: "can_invar example_state"
    by (simp add: example_state_def invar_power_on)
  have o: "occupancy example_state = 0"
    by (simp add: example_state_def occupancy_power_on)
  from store_frames_spec [OF inv, of "replicate (nat SOFTWARE_CAN_BUFFER_SIZE) frame_A"]
  obtain s' where
    s': "store_frames (replicate (nat SOFTWARE_CAN_BUFFER_SIZE) frame_A) example_state = Inr s'"
        "unread s' = unread example_state
           @ take (255 - occupancy example_state) (replicate (nat SOFTWARE_CAN_BUFFER_SIZE) frame_A)"
        "software_CAN_buffer_overflow s'
           = (software_CAN_buffer_overflow example_state
              \<or> 255 - occupancy example_state < length (replicate (nat SOFTWARE_CAN_BUFFER_SIZE) frame_A))"
    by blast
  have "software_CAN_buffer_overflow s'"
    using s'(3) o by (simp add: SOFTWARE_CAN_BUFFER_SIZE_def)
  moreover have "length (unread s') = 255"
    using s'(2) o by (simp add: SOFTWARE_CAN_BUFFER_SIZE_def example_state_def unread_power_on)
  ultimately show ?thesis using s'(1) by simp
qed

section \<open>Manual configuration\<close>

lemma table_bound: "take (unat baudrates_nbr) can_timings = can_timings"
  by (simp add: baudrates_nbr_def can_timings_def)

lemma manual_configuration_loop_spec:
  "fst (manual_configuration_loop ts baud s)
     = \<lparr>is_set = (baud \<in> my_CAN_BitTiming.baudrate ` set ts),
        baudrate = (if baud \<in> my_CAN_BitTiming.baudrate ` set ts then baud else 0),
        filter_id = filter_id (can_status s), mask_id = mask_id (can_status s)\<rparr>
   \<and> can_status (snd (manual_configuration_loop ts baud s))
       = fst (manual_configuration_loop ts baud s)"
  by (induction ts) (auto simp: Let_def)

text \<open>Claim C4. \<^verbatim>\<open>my_CAN_manual_configuration\<close> returns the status it stores. For a bit
  rate of the table the status is configured with exactly that bit rate; for any other
  value it is not configured and the bit rate is 0. In both cases \<^verbatim>\<open>filter_id\<close> and
  \<^verbatim>\<open>mask_id\<close> are what they were before the call.\<close>

theorem manual_configuration:
  "fst (my_CAN_manual_configuration baud s) = can_status (snd (my_CAN_manual_configuration baud s))
   \<and> filter_id (fst (my_CAN_manual_configuration baud s)) = filter_id (can_status s)
   \<and> mask_id (fst (my_CAN_manual_configuration baud s)) = mask_id (can_status s)
   \<and> (if baud \<in> my_CAN_BitTiming.baudrate ` set can_timings
       then is_set (fst (my_CAN_manual_configuration baud s))
            \<and> baudrate (fst (my_CAN_manual_configuration baud s)) = baud
       else \<not> is_set (fst (my_CAN_manual_configuration baud s))
            \<and> baudrate (fst (my_CAN_manual_configuration baud s)) = 0)"
  using manual_configuration_loop_spec [of can_timings baud s]
  by (simp add: my_CAN_manual_configuration_def table_bound)

theorem manual_configuration_witness:
  "fst (my_CAN_manual_configuration 500000 example_state)
     = \<lparr>is_set = True, baudrate = 500000, filter_id = 0, mask_id = 0\<rparr>
   \<and> fst (my_CAN_manual_configuration 123456 example_state)
     = \<lparr>is_set = False, baudrate = 0, filter_id = 0, mask_id = 0\<rparr>"
proof -
  have a: "(500000 :: 32 word) \<in> my_CAN_BitTiming.baudrate ` set can_timings"
    by (simp add: can_timings_def)
  have b: "(123456 :: 32 word) \<notin> my_CAN_BitTiming.baudrate ` set can_timings"
    by (simp add: can_timings_def)
  have c: "can_status example_state = \<lparr>is_set = False, baudrate = 0, filter_id = 0, mask_id = 0\<rparr>"
    by (simp add: example_state_def power_on_state_def)
  show ?thesis
    using manual_configuration [of 500000 example_state]
      manual_configuration [of 123456 example_state] a b c
    by (auto intro!: my_CAN_Status.equality)
qed

section \<open>Filter and mask\<close>

text \<open>Claim C6. For all 32-bit arguments, \<^verbatim>\<open>my_CAN_set_filter_mask\<close> stores the filter
  and the mask reduced to their low 11 bits, in the status and in the filter structure,
  and keeps \<^verbatim>\<open>is_set\<close> and \<^verbatim>\<open>baudrate\<close>.\<close>

theorem set_filter_mask:
  "fst (my_CAN_set_filter_mask f m s)
     = \<lparr>is_set = is_set (can_status s), baudrate = baudrate (can_status s),
        filter_id = f AND 0x7FF, mask_id = m AND 0x7FF\<rparr>
   \<and> can_status (snd (my_CAN_set_filter_mask f m s)) = fst (my_CAN_set_filter_mask f m s)
   \<and> FilterID1 (sFilterConfig (snd (my_CAN_set_filter_mask f m s))) = f AND 0x7FF
   \<and> FilterID2 (sFilterConfig (snd (my_CAN_set_filter_mask f m s))) = m AND 0x7FF"
  by (simp add: my_CAN_set_filter_mask_def Let_def)

theorem set_filter_mask_witness:
  "fst (my_CAN_set_filter_mask 0x1FFF 0xFFFFF800 example_state)
     = \<lparr>is_set = False, baudrate = 0, filter_id = 0x7FF, mask_id = 0\<rparr>"
  using set_filter_mask [of "0x1FFF" "0xFFFFF800" example_state]
  by (simp add: example_state_def power_on_state_def)

section \<open>Start and stop\<close>

text \<open>Claim C7. Without a configuration \<^verbatim>\<open>my_CAN_start\<close> returns false, makes no HAL
  call and leaves the state as it is. With a configuration it returns true, programs one
  filter (standard identifiers, mask type, routed to receive FIFO 0) with the stored
  \<^verbatim>\<open>filter_id\<close> and \<^verbatim>\<open>mask_id\<close>, and then makes exactly one start call and exactly one
  call that enables the new-message notification, in this order.\<close>

theorem start_capture:
  "(\<not> is_set (can_status s) \<longrightarrow> my_CAN_start s = (False, s, []))
   \<and> (is_set (can_status s) \<longrightarrow>
        (\<exists>s' evs. my_CAN_start s = (True, s', evs)
           \<and> s' = s\<lparr>sFilterConfig :=
                      \<lparr>IdType = FDCAN_STANDARD_ID, FilterIndex = 0, FilterType = FDCAN_FILTER_MASK,
                       FilterConfig = FDCAN_FILTER_TO_RXFIFO0,
                       FilterID1 = filter_id (can_status s), FilterID2 = mask_id (can_status s)\<rparr>\<rparr>
           \<and> filter is_config_filter evs = [HAL_FDCAN_ConfigFilter (sFilterConfig s')]
           \<and> filter is_start evs = [HAL_FDCAN_Start (hfdcan1_Init s)]
           \<and> filter is_activate evs
               = [HAL_FDCAN_ActivateNotification FDCAN_IT_RX_FIFO0_NEW_MESSAGE 0]
           \<and> (\<exists>pre. evs = pre @ [HAL_FDCAN_ConfigFilter (sFilterConfig s'),
                                  HAL_FDCAN_Start (hfdcan1_Init s),
                                  HAL_FDCAN_ActivateNotification FDCAN_IT_RX_FIFO0_NEW_MESSAGE 0])))"
proof -
  have "(sFilterConfig s)\<lparr>IdType := FDCAN_STANDARD_ID, FilterIndex := 0,
           FilterType := FDCAN_FILTER_MASK, FilterConfig := FDCAN_FILTER_TO_RXFIFO0,
           FilterID1 := filter_id (can_status s), FilterID2 := mask_id (can_status s)\<rparr>
        = \<lparr>IdType = FDCAN_STANDARD_ID, FilterIndex = 0, FilterType = FDCAN_FILTER_MASK,
           FilterConfig = FDCAN_FILTER_TO_RXFIFO0,
           FilterID1 = filter_id (can_status s), FilterID2 = mask_id (can_status s)\<rparr>"
    by (cases "sFilterConfig s") simp
  then show ?thesis
    by (simp add: my_CAN_start_def Let_def)
qed

theorem start_capture_witness:
  "my_CAN_start example_state = (False, example_state, [])
   \<and> (\<exists>s' evs. my_CAN_start example_configured = (True, s', evs)
         \<and> filter is_config_filter evs
             = [HAL_FDCAN_ConfigFilter
                 \<lparr>IdType = FDCAN_STANDARD_ID, FilterIndex = 0, FilterType = FDCAN_FILTER_MASK,
                  FilterConfig = FDCAN_FILTER_TO_RXFIFO0, FilterID1 = 0x123, FilterID2 = 0x7FF\<rparr>]
         \<and> filter is_start evs = [HAL_FDCAN_Start example_init]
         \<and> filter is_activate evs
             = [HAL_FDCAN_ActivateNotification FDCAN_IT_RX_FIFO0_NEW_MESSAGE 0])"
proof -
  have a: "\<not> is_set (can_status example_state)"
    by (simp add: example_state_def power_on_state_def)
  have b: "is_set (can_status example_configured)"
    "filter_id (can_status example_configured) = 0x123"
    "mask_id (can_status example_configured) = 0x7FF"
    "hfdcan1_Init example_configured = example_init"
    by (simp_all add: example_configured_def example_state_def power_on_state_def)
  show ?thesis
    using start_capture [of example_state] start_capture [of example_configured] a b by auto
qed

text \<open>Claim C8. From every state \<^verbatim>\<open>my_CAN_stop\<close> stops the controller, disables the
  new-message notification and sets \<^verbatim>\<open>head\<close> and \<^verbatim>\<open>tail\<close> to 0: no frame is pending
  any more, a read reports an empty buffer, and a second stop makes the same HAL calls and
  leaves the same state.\<close>

theorem stop_capture:
  "fst (my_CAN_stop s) = s\<lparr>tail := 0, head := 0\<rparr>
   \<and> snd (my_CAN_stop s)
       = [HAL_FDCAN_Stop, HAL_FDCAN_DeactivateNotification FDCAN_IT_RX_FIFO0_NEW_MESSAGE]
   \<and> head (fst (my_CAN_stop s)) = 0 \<and> tail (fst (my_CAN_stop s)) = 0
   \<and> occupancy (fst (my_CAN_stop s)) = 0 \<and> unread (fst (my_CAN_stop s)) = []
   \<and> read_frame_from_software_CAN_buffer (fst (my_CAN_stop s)) = Inr (None, fst (my_CAN_stop s))
   \<and> my_CAN_stop (fst (my_CAN_stop s)) = my_CAN_stop s"
  by (simp add: my_CAN_stop_def occupancy_def unread_def read_frame_from_software_CAN_buffer_def)

theorem stop_capture_witness:
  "unread (example_state\<lparr>head := 3\<rparr>) = [zero_frame, zero_frame, zero_frame]
   \<and> unread (fst (my_CAN_stop (example_state\<lparr>head := 3\<rparr>))) = []
   \<and> my_CAN_stop (fst (my_CAN_stop (example_state\<lparr>head := 3\<rparr>)))
       = my_CAN_stop (example_state\<lparr>head := 3\<rparr>)"
proof -
  have "unread (example_state\<lparr>head := 3\<rparr>) = [zero_frame, zero_frame, zero_frame]"
    by (simp add: unread_def occupancy_def example_state_def power_on_state_def
        SOFTWARE_CAN_BUFFER_SIZE_def upt_conv_Cons)
  moreover note stop_capture [of "example_state\<lparr>head := 3\<rparr>"]
  ultimately show ?thesis by blast
qed

section \<open>Automatic configuration\<close>

lemma program_timing:
  "(i :: FDCAN_InitTypeDef)\<lparr>NominalPrescaler := ucast (prescaler t),
      NominalTimeSeg1 := ucast (timeSeg1 t), NominalTimeSeg2 := ucast (timeSeg2 t)\<rparr> = timing_of t"
  by (cases i) (simp add: timing_of_def)

lemma started_with_append: "started_with (xs @ ys) = started_with xs @ started_with ys"
  by (induction xs rule: started_with.induct) simp_all

lemma started_with_printf: "started_with (my_printf fmt args) = []"
  by (simp add: my_printf_def my_uart_transmit_buffer_def)

lemma check_Fifo_spec:
  "fst (check_Fifo bus s) = (bus (hfdcan1_Init s) \<noteq> 0)
   \<and> started_with (snd (check_Fifo bus s)) = [hfdcan1_Init s]"
  by (simp add: check_Fifo_def Let_def word_gt_0)

lemma auto_loop_quiet:
  assumes "\<forall>t \<in> set ts. bus (timing_of t) = 0"
  shows "fst (auto_configuration_loop ts p bus s)
           = \<lparr>is_set = False, baudrate = 0,
              filter_id = filter_id (can_status s), mask_id = mask_id (can_status s)\<rparr>
         \<and> can_status (fst (snd (auto_configuration_loop ts p bus s)))
           = fst (auto_configuration_loop ts p bus s)
         \<and> started_with (snd (snd (auto_configuration_loop ts p bus s))) = map timing_of ts"
  using assms
proof (induction ts arbitrary: s)
  case Nil
  then show ?case by (simp add: Let_def)
next
  case (Cons t ts)
  let ?s1 = "s\<lparr>hfdcan1_Init := timing_of t\<rparr>"
  have q: "\<not> fst (check_Fifo bus ?s1)"
    using Cons.prems by (simp add: check_Fifo_spec)
  have st: "started_with (snd (check_Fifo bus ?s1)) = [timing_of t]"
    by (simp add: check_Fifo_spec)
  have ih: "\<forall>t \<in> set ts. bus (timing_of t) = 0" using Cons.prems by simp
  note IH = Cons.IH [OF ih, of ?s1]
  show ?case
    using q st IH
    by (simp add: Let_def program_timing split_beta started_with_append started_with_printf)
qed

lemma auto_loop_found:
  assumes "\<forall>x \<in> set pre. bus (timing_of x) = 0" and "bus (timing_of t) \<noteq> 0"
  shows "fst (auto_configuration_loop (pre @ t # post) p bus s)
           = \<lparr>is_set = True, baudrate = my_CAN_BitTiming.baudrate t,
              filter_id = filter_id (can_status s), mask_id = mask_id (can_status s)\<rparr>
         \<and> can_status (fst (snd (auto_configuration_loop (pre @ t # post) p bus s)))
           = fst (auto_configuration_loop (pre @ t # post) p bus s)
         \<and> started_with (snd (snd (auto_configuration_loop (pre @ t # post) p bus s)))
           = map timing_of (pre @ [t])"
  using assms
proof (induction pre arbitrary: s)
  case Nil
  let ?s1 = "s\<lparr>hfdcan1_Init := timing_of t\<rparr>"
  have q: "fst (check_Fifo bus ?s1)"
    using Nil.prems by (simp add: check_Fifo_spec)
  have st: "started_with (snd (check_Fifo bus ?s1)) = [timing_of t]"
    by (simp add: check_Fifo_spec)
  show ?case
    using q st
    by (simp add: Let_def program_timing split_beta started_with_append started_with_printf)
next
  case (Cons x pre)
  let ?s1 = "s\<lparr>hfdcan1_Init := timing_of x\<rparr>"
  have q: "\<not> fst (check_Fifo bus ?s1)"
    using Cons.prems by (simp add: check_Fifo_spec)
  have st: "started_with (snd (check_Fifo bus ?s1)) = [timing_of x]"
    by (simp add: check_Fifo_spec)
  have ih: "\<forall>x \<in> set pre. bus (timing_of x) = 0" using Cons.prems by simp
  note IH = Cons.IH [OF ih Cons.prems(2), of ?s1]
  show ?case
    using q st IH
    by (simp add: Let_def program_timing split_beta started_with_append started_with_printf)
qed

lemma distinct_timings: "distinct (map timing_of can_timings)"
  by (simp add: can_timings_def timing_of_def)

text \<open>Claim C3. The timings of the table entries are pairwise different, so the list of
  timings under which the controller was started tells which entries were tried. On a bus
  that shows no traffic at any timing of the table, \<^verbatim>\<open>my_CAN_auto_configuration\<close> starts
  the controller once with every entry, in table order, and returns and stores a status
  that is not configured, with bit rate 0. When entry \<open>k\<close> is the first one that shows
  traffic, it starts the controller with the entries 0 to \<open>k\<close> in order and with no
  later entry, and returns and stores a configured status with the bit rate of entry
  \<open>k\<close>. In both cases \<^verbatim>\<open>filter_id\<close> and \<^verbatim>\<open>mask_id\<close> are what they were before.\<close>

theorem auto_configuration:
  "distinct (map timing_of can_timings)
   \<and> ((\<forall>t \<in> set can_timings. bus (timing_of t) = 0) \<longrightarrow>
        fst (my_CAN_auto_configuration p bus s)
          = \<lparr>is_set = False, baudrate = 0,
             filter_id = filter_id (can_status s), mask_id = mask_id (can_status s)\<rparr>
        \<and> can_status (fst (snd (my_CAN_auto_configuration p bus s)))
          = fst (my_CAN_auto_configuration p bus s)
        \<and> started_with (snd (snd (my_CAN_auto_configuration p bus s)))
          = map timing_of can_timings)
   \<and> (k < length can_timings \<and> bus (timing_of (can_timings ! k)) \<noteq> 0
        \<and> (\<forall>j < k. bus (timing_of (can_timings ! j)) = 0) \<longrightarrow>
        fst (my_CAN_auto_configuration p bus s)
          = \<lparr>is_set = True, baudrate = my_CAN_BitTiming.baudrate (can_timings ! k),
             filter_id = filter_id (can_status s), mask_id = mask_id (can_status s)\<rparr>
        \<and> can_status (fst (snd (my_CAN_auto_configuration p bus s)))
          = fst (my_CAN_auto_configuration p bus s)
        \<and> started_with (snd (snd (my_CAN_auto_configuration p bus s)))
          = map timing_of (take (Suc k) can_timings))"
proof (intro conjI impI)
  show "distinct (map timing_of can_timings)" by (rule distinct_timings)
next
  assume "\<forall>t \<in> set can_timings. bus (timing_of t) = 0"
  from auto_loop_quiet [OF this, of p s]
  show "fst (my_CAN_auto_configuration p bus s)
          = \<lparr>is_set = False, baudrate = 0,
             filter_id = filter_id (can_status s), mask_id = mask_id (can_status s)\<rparr>"
    and "can_status (fst (snd (my_CAN_auto_configuration p bus s)))
          = fst (my_CAN_auto_configuration p bus s)"
    and "started_with (snd (snd (my_CAN_auto_configuration p bus s))) = map timing_of can_timings"
    by (simp_all add: my_CAN_auto_configuration_def table_bound)
next
  assume a: "k < length can_timings \<and> bus (timing_of (can_timings ! k)) \<noteq> 0
        \<and> (\<forall>j < k. bus (timing_of (can_timings ! j)) = 0)"
  then have split: "can_timings = take k can_timings @ can_timings ! k # drop (Suc k) can_timings"
    by (simp add: id_take_nth_drop)
  have quiet: "\<forall>x \<in> set (take k can_timings). bus (timing_of x) = 0"
    using a by (auto simp: in_set_conv_nth)
  have tk: "take k can_timings @ [can_timings ! k] = take (Suc k) can_timings"
    using a by (simp add: take_Suc_conv_app_nth)
  from auto_loop_found [OF quiet, of "can_timings ! k" "drop (Suc k) can_timings" p s] a
  have "fst (auto_configuration_loop can_timings p bus s)
          = \<lparr>is_set = True, baudrate = my_CAN_BitTiming.baudrate (can_timings ! k),
             filter_id = filter_id (can_status s), mask_id = mask_id (can_status s)\<rparr>
        \<and> can_status (fst (snd (auto_configuration_loop can_timings p bus s)))
          = fst (auto_configuration_loop can_timings p bus s)
        \<and> started_with (snd (snd (auto_configuration_loop can_timings p bus s)))
          = map timing_of (take (Suc k) can_timings)"
    unfolding tk split [symmetric] by simp
  then show "fst (my_CAN_auto_configuration p bus s)
          = \<lparr>is_set = True, baudrate = my_CAN_BitTiming.baudrate (can_timings ! k),
             filter_id = filter_id (can_status s), mask_id = mask_id (can_status s)\<rparr>"
    and "can_status (fst (snd (my_CAN_auto_configuration p bus s)))
          = fst (my_CAN_auto_configuration p bus s)"
    and "started_with (snd (snd (my_CAN_auto_configuration p bus s)))
          = map timing_of (take (Suc k) can_timings)"
    by (simp_all add: my_CAN_auto_configuration_def table_bound)
qed

theorem auto_configuration_witness:
  "fst (my_CAN_auto_configuration True quiet_bus example_configured)
     = \<lparr>is_set = False, baudrate = 0, filter_id = 0x123, mask_id = 0x7FF\<rparr>
   \<and> length (started_with (snd (snd (my_CAN_auto_configuration True quiet_bus example_configured))))
       = 12
   \<and> fst (my_CAN_auto_configuration True bus_20k example_configured)
     = \<lparr>is_set = True, baudrate = 20000, filter_id = 0x123, mask_id = 0x7FF\<rparr>
   \<and> started_with (snd (snd (my_CAN_auto_configuration True bus_20k example_configured)))
     = [\<lparr>NominalPrescaler = 200, NominalTimeSeg1 = 34, NominalTimeSeg2 = 5\<rparr>,
        \<lparr>NominalPrescaler = 100, NominalTimeSeg1 = 34, NominalTimeSeg2 = 5\<rparr>,
        \<lparr>NominalPrescaler = 50, NominalTimeSeg1 = 34, NominalTimeSeg2 = 5\<rparr>]"
proof -
  have q: "\<forall>t \<in> set can_timings. quiet_bus (timing_of t) = 0"
    by (simp add: quiet_bus_def)
  have st: "filter_id (can_status example_configured) = 0x123"
    "mask_id (can_status example_configured) = 0x7FF"
    by (simp_all add: example_configured_def)
  have len: "length can_timings = 12"
    by (simp add: can_timings_def)
  have e: "can_timings ! 0 = \<lparr>my_CAN_BitTiming.baudrate = 5000, prescaler = 200, timeSeg1 = 34, timeSeg2 = 5\<rparr>"
    "can_timings ! Suc 0 = \<lparr>my_CAN_BitTiming.baudrate = 10000, prescaler = 100, timeSeg1 = 34, timeSeg2 = 5\<rparr>"
    "can_timings ! 2 = \<lparr>my_CAN_BitTiming.baudrate = 20000, prescaler = 50, timeSeg1 = 34, timeSeg2 = 5\<rparr>"
    by (simp_all add: can_timings_def)
  have lt2: "j < 2 \<longleftrightarrow> j = 0 \<or> j = Suc 0" for j :: nat by auto
  have k: "2 < length can_timings \<and> bus_20k (timing_of (can_timings ! 2)) \<noteq> 0
        \<and> (\<forall>j < 2. bus_20k (timing_of (can_timings ! j)) = 0)"
    by (simp add: len lt2 e bus_20k_def timing_of_def)
  have tk: "map timing_of (take (Suc 2) can_timings)
     = [\<lparr>NominalPrescaler = 200, NominalTimeSeg1 = 34, NominalTimeSeg2 = 5\<rparr>,
        \<lparr>NominalPrescaler = 100, NominalTimeSeg1 = 34, NominalTimeSeg2 = 5\<rparr>,
        \<lparr>NominalPrescaler = 50, NominalTimeSeg1 = 34, NominalTimeSeg2 = 5\<rparr>]"
    by (simp add: can_timings_def timing_of_def)
  from auto_configuration [of quiet_bus True example_configured 0] q
  have a: "fst (my_CAN_auto_configuration True quiet_bus example_configured)
             = \<lparr>is_set = False, baudrate = 0, filter_id = 0x123, mask_id = 0x7FF\<rparr>"
    and b: "length (started_with (snd (snd (my_CAN_auto_configuration True quiet_bus example_configured)))) = 12"
    by (simp_all add: st len)
  from auto_configuration [of bus_20k True example_configured 2] k
  have c: "fst (my_CAN_auto_configuration True bus_20k example_configured)
     = \<lparr>is_set = True, baudrate = 20000, filter_id = 0x123, mask_id = 0x7FF\<rparr>"
    and d: "started_with (snd (snd (my_CAN_auto_configuration True bus_20k example_configured)))
     = map timing_of (take (Suc 2) can_timings)"
    by (simp_all add: st e)
  show ?thesis using a b c d tk by simp
qed

section \<open>Formatted output of a frame\<close>

lemma length_hex_digits: "n < 16 ^ k \<Longrightarrow> 0 < k \<Longrightarrow> length (hex_digits u n) \<le> k"
proof (induction u n arbitrary: k rule: hex_digits.induct)
  case (1 upper n)
  show ?case
  proof (cases "n < 16")
    case True
    with "1.prems" show ?thesis by (subst hex_digits.simps) simp
  next
    case False
    then obtain j where k: "k = Suc j" using "1.prems" by (cases k) auto
    with False "1.prems" have j: "0 < j" by (cases j) auto
    have "n div 16 < 16 ^ j"
      using "1.prems" k by (simp add: less_mult_imp_div_less mult.commute)
    from "1.IH" [OF False this j] False k show ?thesis
      by (subst hex_digits.simps) simp
  qed
qed

lemma length_dec_digits: "n < 10 ^ k \<Longrightarrow> 0 < k \<Longrightarrow> length (dec_digits n) \<le> k"
proof (induction n arbitrary: k rule: dec_digits.induct)
  case (1 n)
  show ?case
  proof (cases "n < 10")
    case True
    with "1.prems" show ?thesis by (subst dec_digits.simps) simp
  next
    case False
    then obtain j where k: "k = Suc j" using "1.prems" by (cases k) auto
    with False "1.prems" have j: "0 < j" by (cases j) auto
    have "n div 10 < 10 ^ j"
      using "1.prems" k by (simp add: less_mult_imp_div_less mult.commute)
    from "1.IH" [OF False this j] False k show ?thesis
      by (subst dec_digits.simps) simp
  qed
qed

lemma length_hex_word: "length (hex_digits u (unat (a :: 32 word))) \<le> 8"
proof -
  have "unat a < 2 ^ 32" using unsigned_less [of a, where 'a = nat] by simp
  then have "unat a < 16 ^ 8" by simp
  then show ?thesis by (rule length_hex_digits) simp
qed

lemma length_dec_byte: "length (dec_digits (unat (d :: 8 word))) \<le> 3"
proof -
  have "unat d < 2 ^ 8" using unsigned_less [of d, where 'a = nat] by simp
  then have "unat d < 10 ^ 3" by simp
  then show ?thesis by (rule length_dec_digits) simp
qed

lemma byte_promoted: "unat (ucast (d :: 8 word) :: 32 word) = unat d"
  "sint (ucast (d :: 8 word) :: 32 word) = int (unat d)"
proof -
  have lt: "uint d < 2 ^ 8" using unsigned_less [of d, where 'a = int] by simp
  have "unat d < 2 ^ 8" using unsigned_less [of d, where 'a = nat] by simp
  then have "unat d < 2 ^ 32" by simp
  then show "unat (ucast d :: 32 word) = unat d"
    by (simp add: unsigned_ucast_eq take_bit_nat_eq_self)
  have "- (2 ^ 31) \<le> uint d"
    by (rule order_trans [OF _ uint_nonnegative]) simp
  moreover have "uint d < 2 ^ 31" using lt by simp
  ultimately have "signed_take_bit 31 (uint d) = uint d"
    by (rule signed_take_bit_int_eq_self)
  then have "sint (ucast d :: 32 word) = uint d"
    by (simp add: signed_ucast_eq)
  then show "sint (ucast d :: 32 word) = int (unat d)" by simp
qed

lemma fmt_chars:
  "is_digit (CHR ''3'')" "is_digit (CHR ''2'')" "\<not> is_digit (CHR ''X'')" "\<not> is_digit (CHR ''d'')"
  "digit_val (CHR ''3'') = 3" "digit_val (CHR ''2'') = 2"
  by (simp_all add: is_digit_def digit_val_def)

lemma format_byte: "format_string Literal '' %02X'' [a] = '' '' @ conv_x True True 2 a"
  by (simp add: fmt_chars numeral_2_eq_2)

lemma format_header:
  "format_string Literal ''ID: 0x%03X, DLC: %d, Data:'' [i, d]
     = ''ID: 0x'' @ conv_x True True 3 i @ '', DLC: '' @ conv_d False 0 d @ '', Data:''"
  by (simp add: fmt_chars)

lemma conv_x_upper: "conv_x True True w a = upper_hex w (unat a)"
  by (simp add: conv_x_def pad_field_def upper_hex_def)

lemma length_upper_hex: "length (upper_hex w (unat (a :: 32 word))) \<le> max w 8"
  using length_hex_word [of True a] by (simp add: upper_hex_def)

lemma conv_d_byte: "conv_d False 0 (ucast (d :: 8 word)) = dec_digits (unat d)"
  by (simp add: conv_d_def pad_field_def byte_promoted)

lemma printf_byte:
  "my_printf '' %02X'' [ucast (b :: 8 word)] = [HAL_UART_Transmit ('' '' @ upper_hex 2 (unat b))]"
proof -
  have "length (upper_hex 2 (unat b)) \<le> 8"
    using length_upper_hex [of 2 "ucast b"] by (simp add: byte_promoted)
  then have "length ('' '' @ upper_hex 2 (unat b)) \<le> 127"
    by simp
  then have "take 127 ('' '' @ upper_hex 2 (unat b)) = '' '' @ upper_hex 2 (unat b)"
    by (rule take_all)
  then show ?thesis
    by (simp only: my_printf_def my_uart_transmit_buffer_def vsnprintf_128_def format_byte
        conv_x_upper byte_promoted)
qed

lemma printf_header:
  "my_printf ''ID: 0x%03X, DLC: %d, Data:'' [i, ucast (d :: 8 word)]
     = [HAL_UART_Transmit (''ID: 0x'' @ upper_hex 3 (unat i) @ '', DLC: ''
          @ dec_digits (unat d) @ '', Data:'')]"
proof -
  let ?line = "''ID: 0x'' @ upper_hex 3 (unat i) @ '', DLC: '' @ dec_digits (unat d) @ '', Data:''"
  have "length (upper_hex 3 (unat i)) \<le> 8"
    using length_upper_hex [of 3 i] by simp
  then have "length ?line \<le> 127"
    using length_dec_byte [of d] by simp
  then have "take 127 ?line = ?line"
    by (rule take_all)
  then show ?thesis
    by (simp only: my_printf_def my_uart_transmit_buffer_def vsnprintf_128_def format_header
        conv_x_upper conv_d_byte)
qed

lemma printf_eol: "my_printf [CR, LF, LF] [] = [HAL_UART_Transmit [CR, LF, LF]]"
  by (simp add: my_printf_def my_uart_transmit_buffer_def vsnprintf_128_def CR_def LF_def)

section \<open>The report loop\<close>

lemma error_is_OutOfBounds: "(e :: error) = OutOfBounds"
  by (cases e) simp

lemma print_data_ok:
  "\<forall>i \<in> set idx. i < 8 \<Longrightarrow>
     print_data f idx
       = Inr (map (\<lambda>i. HAL_UART_Transmit ('' '' @ upper_hex 2 (unat (Data f ! i)))) idx)"
  by (induction idx) (simp_all add: printf_byte)

lemma print_data_bad: "\<exists>i \<in> set idx. \<not> i < 8 \<Longrightarrow> print_data f idx = Inl OutOfBounds"
  by (induction idx) (auto split: sum.splits intro: error_is_OutOfBounds)

lemma take_as_map: "n \<le> length xs \<Longrightarrow> map (\<lambda>i. g (xs ! i)) [0..<n] = map g (take n xs)"
  by (simp add: list_eq_iff_nth_eq)

lemma print_frame_ok:
  assumes "unat (DataLength f) \<le> 8" and "length (Data f) = 8"
  shows "print_frame f = Inr (frame_report f)"
proof -
  have "\<forall>i \<in> set [0..<unat (DataLength f)]. i < 8" using assms(1) by auto
  note pd = print_data_ok [OF this, of f]
  have "unat (DataLength f) \<le> length (Data f)" using assms by simp
  note tm = take_as_map [OF this,
      of "\<lambda>b. HAL_UART_Transmit ('' '' @ upper_hex 2 (unat b))"]
  show ?thesis
    unfolding print_frame_def frame_report_def pd tm by (simp add: printf_header printf_eol)
qed

lemma print_frame_defined:
  assumes "unat (DataLength f) \<le> 8"
  shows "\<exists>evs. print_frame f = Inr evs"
proof -
  have "\<forall>i \<in> set [0..<unat (DataLength f)]. i < 8" using assms(1) by auto
  from print_data_ok [OF this, of f] show ?thesis
    by (simp add: print_frame_def)
qed

lemma print_frame_bad:
  assumes "8 < unat (DataLength f)"
  shows "print_frame f = Inl OutOfBounds"
proof -
  have "\<exists>i \<in> set [0..<unat (DataLength f)]. \<not> i < 8"
    using assms by (intro bexI [of _ 8]) simp_all
  from print_data_bad [OF this, of f] show ?thesis
    by (simp add: print_frame_def)
qed

lemma report_loop_ok:
  assumes "can_invar s" and "unread s = xs"
    and "\<forall>f \<in> set xs. unat (DataLength f) \<le> 8 \<and> length (Data f) = 8"
  shows "report_loop s acc = Some (Inr (s\<lparr>tail := head s\<rparr>, acc @ concat (map frame_report xs)))"
  using assms
proof (induction xs arbitrary: s acc)
  case Nil
  then have e: "occupancy s = 0" using length_unread [of s] by simp
  then have ht: "head s = tail s" using occupancy_0_iff [OF Nil.prems(1)] by simp
  have "read_frame_from_software_CAN_buffer s = Inr (None, s)"
    by (rule read_frame_empty [OF Nil.prems(1) e])
  then show ?case
    by (subst report_loop.simps) (simp add: ht)
next
  case (Cons x xs)
  from read_frame_nonempty [OF Cons.prems(1,2)] obtain s1 nt where
    s1: "read_frame_from_software_CAN_buffer s = Inr (Some x, s1)" "unread s1 = xs"
        "can_invar s1" "s1 = s\<lparr>tail := nt\<rparr>"
    by blast
  have pf: "print_frame x = Inr (frame_report x)"
    using Cons.prems(3) by (simp add: print_frame_ok)
  have "\<forall>f \<in> set xs. unat (DataLength f) \<le> 8 \<and> length (Data f) = 8"
    using Cons.prems(3) by simp
  from Cons.IH [OF s1(3) s1(2) this, of "acc @ frame_report x"]
  have "report_loop s1 (acc @ frame_report x)
          = Some (Inr (s\<lparr>tail := head s\<rparr>, acc @ concat (map frame_report (x # xs))))"
    by (simp add: s1(4))
  then show ?case
    using s1(1) pf by (subst report_loop.simps) simp
qed

lemma report_loop_bad:
  assumes "can_invar s" and "unread s = xs" and "\<exists>f \<in> set xs. 8 < unat (DataLength f)"
  shows "report_loop s acc = Some (Inl OutOfBounds)"
  using assms
proof (induction xs arbitrary: s acc)
  case Nil
  then show ?case by simp
next
  case (Cons x xs)
  from read_frame_nonempty [OF Cons.prems(1,2)] obtain s1 where
    s1: "read_frame_from_software_CAN_buffer s = Inr (Some x, s1)" "unread s1 = xs"
        "can_invar s1"
    by blast
  show ?case
  proof (cases "8 < unat (DataLength x)")
    case True
    then show ?thesis
      using s1(1) by (subst report_loop.simps) (simp add: print_frame_bad)
  next
    case False
    then obtain evs where pf: "print_frame x = Inr evs"
      using print_frame_defined [of x] by auto
    have "\<exists>f \<in> set xs. 8 < unat (DataLength f)"
      using Cons.prems(3) False by simp
    from Cons.IH [OF s1(3) s1(2) this, of "acc @ evs"] show ?thesis
      using s1(1) pf by (subst report_loop.simps) simp
  qed
qed

lemma tail_to_head_empty: "unread (s\<lparr>tail := head s\<rparr>) = []"
  by (simp add: unread_def occupancy_def)

text \<open>Claim C5. In a state that satisfies the index invariant and whose pending frames
  have a data length of at most 8 (in the 8-byte payload array), \<^verbatim>\<open>send_frame_over_UART\<close>
  returns. It first emits one overflow notice for the hardware flag if that is latched,
  then one for the software flag if that is latched, and clears both; then it emits the
  report of every pending frame, oldest first, each as the line
  \<^verbatim>\<open>ID: 0x%03X, DLC: %d, Data:\<close>, one \<^verbatim>\<open> %02X\<close> per payload byte and the end of the
  line followed by a blank line. Afterwards \<^verbatim>\<open>tail\<close> equals \<^verbatim>\<open>head\<close>: the buffer is empty.
  With no pending frame it emits nothing but the notices.\<close>

theorem drain_and_report:
  assumes "can_invar s"
    and "\<forall>f \<in> set (unread s). unat (DataLength f) \<le> 8 \<and> length (Data f) = 8"
  shows "send_frame_over_UART s
           = Some (Inr (s\<lparr>hardware_CAN_buffer_overflow := False,
                           software_CAN_buffer_overflow := False, tail := head s\<rparr>,
                        (if hardware_CAN_buffer_overflow s
                         then DEBUG_printf (''Hardware CAN FIFO overflow!'' @ [CR, LF]) [] else [])
                        @ (if software_CAN_buffer_overflow s
                           then DEBUG_printf (''Software CAN buffer overflow!'' @ [CR, LF]) [] else [])
                        @ concat (map frame_report (unread s))))
         \<and> unread (s\<lparr>hardware_CAN_buffer_overflow := False,
                       software_CAN_buffer_overflow := False, tail := head s\<rparr>) = []"
proof -
  let ?s2 = "s\<lparr>hardware_CAN_buffer_overflow := False, software_CAN_buffer_overflow := False\<rparr>"
  have inv: "can_invar ?s2" using assms(1) by simp
  have u: "unread ?s2 = unread s" by simp
  note r = report_loop_ok [OF inv u assms(2)]
  have e: "unread (?s2\<lparr>tail := head ?s2\<rparr>) = []"
    by (rule tail_to_head_empty)
  have c1: "s\<lparr>software_CAN_buffer_overflow := False\<rparr> = ?s2" if "\<not> hardware_CAN_buffer_overflow s"
    using that by (cases s) simp
  have c2: "s\<lparr>hardware_CAN_buffer_overflow := False\<rparr> = ?s2" if "\<not> software_CAN_buffer_overflow s"
    using that by (cases s) simp
  have c3: "s = ?s2" if "\<not> hardware_CAN_buffer_overflow s" "\<not> software_CAN_buffer_overflow s"
    using that by (cases s) simp
  have "send_frame_over_UART s
           = Some (Inr (?s2\<lparr>tail := head ?s2\<rparr>,
                        (if hardware_CAN_buffer_overflow s
                         then DEBUG_printf (''Hardware CAN FIFO overflow!'' @ [CR, LF]) [] else [])
                        @ (if software_CAN_buffer_overflow s
                           then DEBUG_printf (''Software CAN buffer overflow!'' @ [CR, LF]) [] else [])
                        @ concat (map frame_report (unread s))))"
  proof (cases "hardware_CAN_buffer_overflow s"; cases "software_CAN_buffer_overflow s")
    assume "hardware_CAN_buffer_overflow s" "software_CAN_buffer_overflow s"
    then show ?thesis
      unfolding send_frame_over_UART_def by (simp add: r)
  next
    assume a: "hardware_CAN_buffer_overflow s" "\<not> software_CAN_buffer_overflow s"
    then show ?thesis
      unfolding send_frame_over_UART_def using r by (simp add: c2 [symmetric])
  next
    assume a: "\<not> hardware_CAN_buffer_overflow s" "software_CAN_buffer_overflow s"
    then show ?thesis
      unfolding send_frame_over_UART_def using r by (simp add: c1 [symmetric])
  next
    assume a: "\<not> hardware_CAN_buffer_overflow s" "\<not> software_CAN_buffer_overflow s"
    then show ?thesis
      unfolding send_frame_over_UART_def using r c3 [OF a] by simp
  qed
  with e show ?thesis by simp
qed

text \<open>The frame with identifier 0x123 and the three payload bytes AA, BB, CC is reported
  as \<^verbatim>\<open>ID: 0x123, DLC: 3, Data: AA BB CC\<close> and a blank line, after the hardware
  notice.\<close>

lemma frame_report_A:
  "frame_report frame_A
     = [HAL_UART_Transmit ''ID: 0x123, DLC: 3, Data:'', HAL_UART_Transmit '' AA'',
        HAL_UART_Transmit '' BB'', HAL_UART_Transmit '' CC'', HAL_UART_Transmit [CR, LF, LF]]"
  by (simp add: frame_report_def frame_A_def upper_hex_def hex_digits.simps dec_digits.simps
      digit_char_def)

lemma hardware_notice:
  "DEBUG_printf (''Hardware CAN FIFO overflow!'' @ [CR, LF]) []
     = [HAL_UART_Transmit ([LF, LF, LF] @ ''$$$$$$$$$ DEBUG print START $$$$$$$$$'' @ [CR, LF]),
        HAL_UART_Transmit (''Hardware CAN FIFO overflow!'' @ [CR, LF]),
        HAL_UART_Transmit (''$$$$$$$$$ DEBUG print END $$$$$$$$$$$'' @ [CR, LF, LF, LF])]"
  by (simp add: DEBUG_printf_def my_printf_def vsnprintf_128_def my_uart_transmit_buffer_def
      CR_def LF_def)

theorem drain_and_report_witness:
  "send_frame_over_UART example_pending
     = Some (Inr (example_pending\<lparr>hardware_CAN_buffer_overflow := False,
                     software_CAN_buffer_overflow := False, tail := 1\<rparr>,
                  [HAL_UART_Transmit ([LF, LF, LF] @ ''$$$$$$$$$ DEBUG print START $$$$$$$$$'' @ [CR, LF]),
                   HAL_UART_Transmit (''Hardware CAN FIFO overflow!'' @ [CR, LF]),
                   HAL_UART_Transmit (''$$$$$$$$$ DEBUG print END $$$$$$$$$$$'' @ [CR, LF, LF, LF]),
                   HAL_UART_Transmit ''ID: 0x123, DLC: 3, Data:'', HAL_UART_Transmit '' AA'',
                   HAL_UART_Transmit '' BB'', HAL_UART_Transmit '' CC'',
                   HAL_UART_Transmit [CR, LF, LF]]))"
proof -
  have inv: "can_invar example_pending"
    by (simp add: example_pending_def example_state_def power_on_state_def can_invar_def
        SOFTWARE_CAN_BUFFER_SIZE_def)
  have u: "unread example_pending = [frame_A]"
    by (simp add: example_pending_def example_state_def power_on_state_def unread_def
        occupancy_def SOFTWARE_CAN_BUFFER_SIZE_def)
  have ok: "\<forall>f \<in> set (unread example_pending). unat (DataLength f) \<le> 8 \<and> length (Data f) = 8"
    by (simp add: u frame_A_def)
  have fl: "hardware_CAN_buffer_overflow example_pending"
    "\<not> software_CAN_buffer_overflow example_pending" "head example_pending = 1"
    by (simp_all add: example_pending_def example_state_def power_on_state_def)
  have "send_frame_over_UART example_pending
           = Some (Inr (example_pending\<lparr>hardware_CAN_buffer_overflow := False,
                           software_CAN_buffer_overflow := False, tail := head example_pending\<rparr>,
                        DEBUG_printf (''Hardware CAN FIFO overflow!'' @ [CR, LF]) []
                        @ concat (map frame_report (unread example_pending))))"
    using drain_and_report [OF inv ok] fl by simp
  then show ?thesis
    unfolding hardware_notice u by (simp add: fl frame_report_A)
qed

section \<open>The receive loop\<close>

lemma memcpy_rx:
  "memcpy (Data zero_frame) (take 8 (p @ replicate 8 0)) n
     = (if n \<le> 8 then Inr (take n (take 8 (p @ replicate 8 0)) @ drop n (replicate 8 0))
        else Inl OutOfBounds)"
proof -
  have "length (take 8 (p @ replicate 8 (0 :: 8 word))) = 8"
    by (simp add: min_def)
  then show ?thesis
    unfolding memcpy_def zero_frame_def by simp
qed

lemma successful_reads_simps:
  "successful_reads [] = 0"
  "successful_reads (HAL_FDCAN_GetRxMessage FDCAN_RX_FIFO0 HAL_OK # evs) = Suc (successful_reads evs)"
  "successful_reads (HAL_FDCAN_GetRxMessage FDCAN_RX_FIFO0 HAL_ERROR # evs) = successful_reads evs"
  "successful_reads (HAL_FDCAN_CLEAR_FLAG fl # evs) = successful_reads evs"
  by (simp_all add: successful_reads_def)

lemma rx_loop_step:
  "rx_loop (Suc n) (m # q) s
     = (if unat (FDCAN_RxHeaderTypeDef.DataLength (header m)) \<le> 8
        then (case store_frame (received_frame m) s of
                Inl e \<Rightarrow> Inl e
              | Inr s1 \<Rightarrow>
                  (case rx_loop n q s1 of
                     Inl e \<Rightarrow> Inl e
                   | Inr (fifo2, s2, evs) \<Rightarrow>
                       Inr (fifo2, s2, HAL_FDCAN_GetRxMessage FDCAN_RX_FIFO0 HAL_OK # evs)))
        else Inl OutOfBounds)"
  by (simp only: rx_loop.simps HAL_FDCAN_GetRxMessage_FIFO0.simps memcpy_rx received_frame_def
      prod.case option.case sum.case if_distrib [of "case_sum _ _"] cong: if_cong)

lemma rx_loop_ok:
  assumes "can_invar s"
    and "\<forall>m \<in> set (take n fifo). unat (FDCAN_RxHeaderTypeDef.DataLength (header m)) \<le> 8"
  shows "\<exists>s' evs. rx_loop n fifo s = Inr (drop n fifo, s', evs) \<and> can_invar s'
           \<and> store_frames (map received_frame (take n fifo)) s = Inr s'
           \<and> successful_reads evs = min n (length fifo)
           \<and> length (filter is_read evs) = min n (Suc (length fifo))"
  using assms
proof (induction n arbitrary: fifo s)
  case 0
  then show ?case by (simp add: successful_reads_simps)
next
  case (Suc n)
  show ?case
  proof (cases fifo)
    case Nil
    with Suc.prems show ?thesis by (simp add: successful_reads_simps)
  next
    case (Cons m q)
    have len: "unat (FDCAN_RxHeaderTypeDef.DataLength (header m)) \<le> 8"
      using Suc.prems(2) Cons by simp
    from store_frame_total [OF Suc.prems(1), of "received_frame m"] obtain s1 where
      s1: "store_frame (received_frame m) s = Inr s1" "can_invar s1"
      by blast
    have "\<forall>m \<in> set (take n q). unat (FDCAN_RxHeaderTypeDef.DataLength (header m)) \<le> 8"
      using Suc.prems(2) Cons by simp
    from Suc.IH [OF s1(2) this] obtain s' evs where
      r: "rx_loop n q s1 = Inr (drop n q, s', evs)" "can_invar s'"
         "store_frames (map received_frame (take n q)) s1 = Inr s'"
         "successful_reads evs = min n (length q)"
         "length (filter is_read evs) = min n (Suc (length q))"
      by blast
    have "rx_loop (Suc n) fifo s
            = Inr (drop (Suc n) fifo, s', HAL_FDCAN_GetRxMessage FDCAN_RX_FIFO0 HAL_OK # evs)"
      using Cons len s1(1) r(1) by (simp add: rx_loop_step del: rx_loop.simps)
    then show ?thesis
      using Cons s1(1) r by (simp add: successful_reads_simps)
  qed
qed

lemma rx_loop_bad:
  assumes "can_invar s"
    and "\<exists>m \<in> set (take n fifo). 8 < unat (FDCAN_RxHeaderTypeDef.DataLength (header m))"
  shows "rx_loop n fifo s = Inl OutOfBounds"
  using assms
proof (induction n arbitrary: fifo s)
  case 0
  then show ?case by simp
next
  case (Suc n)
  show ?case
  proof (cases fifo)
    case Nil
    with Suc.prems show ?thesis by simp
  next
    case (Cons m q)
    show ?thesis
    proof (cases "8 < unat (FDCAN_RxHeaderTypeDef.DataLength (header m))")
      case True
      then show ?thesis using Cons by (simp add: rx_loop_step del: rx_loop.simps)
    next
      case False
      from store_frame_total [OF Suc.prems(1), of "received_frame m"] obtain s1 where
        s1: "store_frame (received_frame m) s = Inr s1" "can_invar s1"
        by blast
      have "\<exists>m \<in> set (take n q). 8 < unat (FDCAN_RxHeaderTypeDef.DataLength (header m))"
        using Suc.prems(2) Cons False by simp
      from Suc.IH [OF s1(2) this] have "rx_loop n q s1 = Inl OutOfBounds" .
      then show ?thesis
        using Cons False s1(1) by (simp add: rx_loop_step del: rx_loop.simps)
    qed
  qed
qed

lemma callback_as_loop:
  "\<exists>s1 ev1. can_invar s1 = can_invar s \<and> unread s1 = unread s \<and> occupancy s1 = occupancy s
     \<and> successful_reads ev1 = 0 \<and> filter is_read ev1 = []
     \<and> HAL_FDCAN_RxFifo0Callback its fifo s
         = (case rx_loop 32 fifo s1 of
              Inl e \<Rightarrow> Inl e
            | Inr (fifo1, s2, evs) \<Rightarrow> Inr (fifo1, s2, ev1 @ evs))"
proof (cases "FDCAN_IT_RX_FIFO0_MESSAGE_LOST \<in> its")
  case True
  then show ?thesis
    by (intro exI [of _ "s\<lparr>hardware_CAN_buffer_overflow := True\<rparr>"]
        exI [of _ "[HAL_FDCAN_CLEAR_FLAG FDCAN_FLAG_RX_FIFO0_MESSAGE_LOST]"])
      (simp add: HAL_FDCAN_RxFifo0Callback_def successful_reads_simps)
next
  case False
  then show ?thesis
    by (intro exI [of _ s] exI [of _ "[]"])
      (simp add: HAL_FDCAN_RxFifo0Callback_def successful_reads_simps)
qed

lemma successful_reads_append:
  "successful_reads (xs @ ys) = successful_reads xs + successful_reads ys"
  by (simp add: successful_reads_def)

text \<open>Claim C9. One invocation of \<^verbatim>\<open>HAL_FDCAN_RxFifo0Callback\<close> on a receive FIFO of any
  depth \<open>d\<close> (whose messages report a data length of at most 8, so that the copy into the
  payload array is defined) returns, takes the first \<open>min d 32\<close> messages out of the FIFO
  with as many successful reads, and calls \<^verbatim>\<open>HAL_FDCAN_GetRxMessage\<close> at most 32 times: one
  more time than there are messages when the FIFO runs empty before the bound.\<close>

theorem ingest_bounded:
  assumes "can_invar s"
    and "\<forall>m \<in> set (take 32 fifo). unat (FDCAN_RxHeaderTypeDef.DataLength (header m)) \<le> 8"
  shows "\<exists>s' evs. HAL_FDCAN_RxFifo0Callback its fifo s = Inr (drop 32 fifo, s', evs)
           \<and> successful_reads evs = min (length fifo) 32
           \<and> length (filter is_read evs) = min 32 (Suc (length fifo))
           \<and> length (filter is_read evs) \<le> 32"
proof -
  from callback_as_loop [of s its fifo] obtain s1 ev1 where
    c: "can_invar s1 = can_invar s" "successful_reads ev1 = 0" "filter is_read ev1 = []"
       "HAL_FDCAN_RxFifo0Callback its fifo s
         = (case rx_loop 32 fifo s1 of
              Inl e \<Rightarrow> Inl e
            | Inr (fifo1, s2, evs) \<Rightarrow> Inr (fifo1, s2, ev1 @ evs))"
    by blast
  have "can_invar s1" using c(1) assms(1) by simp
  from rx_loop_ok [OF this assms(2)] obtain s' evs where
    r: "rx_loop 32 fifo s1 = Inr (drop 32 fifo, s', evs)"
       "successful_reads evs = min 32 (length fifo)"
       "length (filter is_read evs) = min 32 (Suc (length fifo))"
    by blast
  show ?thesis
    using c r
    by (intro exI [of _ s'] exI [of _ "ev1 @ evs"]) (simp add: successful_reads_append min.commute)
qed

theorem ingest_bounded_witness:
  "(\<exists>s' evs. HAL_FDCAN_RxFifo0Callback {FDCAN_IT_RX_FIFO0_NEW_MESSAGE}
                 (replicate 40 (message 0x123 3 [0xAA, 0xBB, 0xCC])) example_state
               = Inr (replicate 8 (message 0x123 3 [0xAA, 0xBB, 0xCC]), s', evs)
             \<and> successful_reads evs = 32 \<and> length (filter is_read evs) = 32)
   \<and> (\<exists>s' evs. HAL_FDCAN_RxFifo0Callback {FDCAN_IT_RX_FIFO0_NEW_MESSAGE}
                 [message 0x123 3 [0xAA, 0xBB, 0xCC], message 0x7FF 0 []] example_state
               = Inr ([], s', evs)
             \<and> successful_reads evs = 2 \<and> length (filter is_read evs) = 3)"
proof -
  have inv: "can_invar example_state"
    by (simp add: example_state_def invar_power_on)
  have a: "\<forall>m \<in> set (take 32 (replicate 40 (message 0x123 3 [0xAA, 0xBB, 0xCC]))).
             unat (FDCAN_RxHeaderTypeDef.DataLength (header m)) \<le> 8"
    by (simp add: message_def)
  have b: "\<forall>m \<in> set (take 32 [message 0x123 3 [0xAA, 0xBB, 0xCC], message 0x7FF 0 []]).
             unat (FDCAN_RxHeaderTypeDef.DataLength (header m)) \<le> 8"
    by (simp add: message_def)
  from ingest_bounded [OF inv a, of "{FDCAN_IT_RX_FIFO0_NEW_MESSAGE}"]
  have A: "\<exists>s' evs. HAL_FDCAN_RxFifo0Callback {FDCAN_IT_RX_FIFO0_NEW_MESSAGE}
                 (replicate 40 (message 0x123 3 [0xAA, 0xBB, 0xCC])) example_state
               = Inr (replicate 8 (message 0x123 3 [0xAA, 0xBB, 0xCC]), s', evs)
             \<and> successful_reads evs = 32 \<and> length (filter is_read evs) = 32"
    by auto
  from ingest_bounded [OF inv b, of "{FDCAN_IT_RX_FIFO0_NEW_MESSAGE}"]
  have B: "\<exists>s' evs. HAL_FDCAN_RxFifo0Callback {FDCAN_IT_RX_FIFO0_NEW_MESSAGE}
                 [message 0x123 3 [0xAA, 0xBB, 0xCC], message 0x7FF 0 []] example_state
               = Inr ([], s', evs)
             \<and> successful_reads evs = 2 \<and> length (filter is_read evs) = 3"
    by (auto simp: numeral_2_eq_2 numeral_3_eq_3)
  from A B show ?thesis by (rule conjI)
qed

section \<open>Payload accesses\<close>

lemma report_loop_defined:
  assumes "can_invar s" and "unread s = xs" and "\<forall>f \<in> set xs. unat (DataLength f) \<le> 8"
  shows "\<exists>r. report_loop s acc = Some (Inr r)"
  using assms
proof (induction xs arbitrary: s acc)
  case Nil
  then have e: "occupancy s = 0" using length_unread [of s] by simp
  have "read_frame_from_software_CAN_buffer s = Inr (None, s)"
    by (rule read_frame_empty [OF Nil.prems(1) e])
  then show ?case
    by (subst report_loop.simps) simp
next
  case (Cons x xs)
  from read_frame_nonempty [OF Cons.prems(1,2)] obtain s1 where
    s1: "read_frame_from_software_CAN_buffer s = Inr (Some x, s1)" "unread s1 = xs"
        "can_invar s1"
    by blast
  obtain evs where pf: "print_frame x = Inr evs"
    using print_frame_defined [of x] Cons.prems(3) by auto
  have "\<forall>f \<in> set xs. unat (DataLength f) \<le> 8"
    using Cons.prems(3) by simp
  from Cons.IH [OF s1(3) s1(2) this, of "acc @ evs"] show ?case
    using s1(1) pf by (subst report_loop.simps) simp
qed

lemma report_as_loop:
  "\<exists>s2 acc. can_invar s2 = can_invar s \<and> unread s2 = unread s
     \<and> send_frame_over_UART s = report_loop s2 acc"
proof -
  define s1 where "s1 = (if hardware_CAN_buffer_overflow s
                         then s\<lparr>hardware_CAN_buffer_overflow := False\<rparr> else s)"
  define s2 where "s2 = (if software_CAN_buffer_overflow s1
                         then s1\<lparr>software_CAN_buffer_overflow := False\<rparr> else s1)"
  define acc where "acc =
      (if hardware_CAN_buffer_overflow s
       then DEBUG_printf (''Hardware CAN FIFO overflow!'' @ [CR, LF]) [] else [])
      @ (if software_CAN_buffer_overflow s1
         then DEBUG_printf (''Software CAN buffer overflow!'' @ [CR, LF]) [] else [])"
  have "send_frame_over_UART s = report_loop s2 acc"
    unfolding send_frame_over_UART_def s1_def s2_def acc_def by (simp add: Let_def)
  moreover have "can_invar s2 = can_invar s" "unread s2 = unread s"
    by (simp_all add: s1_def s2_def)
  ultimately show ?thesis by blast
qed

lemma received_length:
  "unat (FDCAN_RxHeaderTypeDef.DataLength (header m)) \<le> 8
     \<Longrightarrow> unat (DataLength (received_frame m)) \<le> 8"
proof -
  assume a: "unat (FDCAN_RxHeaderTypeDef.DataLength (header m)) \<le> 8"
  have "unat (ucast (FDCAN_RxHeaderTypeDef.DataLength (header m)) :: 8 word)
          \<le> unat (FDCAN_RxHeaderTypeDef.DataLength (header m))"
    by (simp add: unsigned_ucast_eq take_bit_eq_mod)
  with a show ?thesis by (simp add: received_frame_def)
qed

text \<open>Claim C10. Neither path checks the data length. The receive interrupt stays inside
  the 8-byte arrays exactly when every message it reads reports a data length of at most
  8, and runs out of bounds otherwise; the report stays inside the payload array exactly
  when every pending frame has a data length of at most 8. Frames stored under that
  precondition keep the report in bounds.\<close>

theorem payload_bounds:
  assumes "can_invar s"
  shows "((\<exists>r. HAL_FDCAN_RxFifo0Callback its fifo s = Inr r)
            \<longleftrightarrow> (\<forall>m \<in> set (take 32 fifo). unat (FDCAN_RxHeaderTypeDef.DataLength (header m)) \<le> 8))
       \<and> (HAL_FDCAN_RxFifo0Callback its fifo s = Inl OutOfBounds
            \<longleftrightarrow> (\<exists>m \<in> set (take 32 fifo). 8 < unat (FDCAN_RxHeaderTypeDef.DataLength (header m))))
       \<and> ((\<exists>r. send_frame_over_UART s = Some (Inr r))
            \<longleftrightarrow> (\<forall>f \<in> set (unread s). unat (DataLength f) \<le> 8))
       \<and> (send_frame_over_UART s = Some (Inl OutOfBounds)
            \<longleftrightarrow> (\<exists>f \<in> set (unread s). 8 < unat (DataLength f)))
       \<and> (\<forall>fifo' s' evs. HAL_FDCAN_RxFifo0Callback its fifo s = Inr (fifo', s', evs)
            \<longrightarrow> (\<forall>f \<in> set (unread s). unat (DataLength f) \<le> 8)
            \<longrightarrow> (\<forall>f \<in> set (unread s'). unat (DataLength f) \<le> 8))"
proof -
  let ?ok = "\<forall>m \<in> set (take 32 fifo). unat (FDCAN_RxHeaderTypeDef.DataLength (header m)) \<le> 8"
  from callback_as_loop [of s its fifo] obtain s1 ev1 where
    c: "can_invar s1 = can_invar s" "unread s1 = unread s"
       "HAL_FDCAN_RxFifo0Callback its fifo s
         = (case rx_loop 32 fifo s1 of
              Inl e \<Rightarrow> Inl e
            | Inr (fifo1, s2, evs) \<Rightarrow> Inr (fifo1, s2, ev1 @ evs))"
    by blast
  have inv1: "can_invar s1" using c(1) assms by simp
  have good: "\<exists>s' evs. HAL_FDCAN_RxFifo0Callback its fifo s = Inr (drop 32 fifo, s', evs)
                \<and> store_frames (map received_frame (take 32 fifo)) s1 = Inr s'" if ?ok
  proof -
    from rx_loop_ok [OF inv1 that] obtain s' evs where
      "rx_loop 32 fifo s1 = Inr (drop 32 fifo, s', evs)"
      "store_frames (map received_frame (take 32 fifo)) s1 = Inr s'"
      by blast
    then show ?thesis using c(3) by simp
  qed
  have bad: "HAL_FDCAN_RxFifo0Callback its fifo s = Inl OutOfBounds" if "\<not> ?ok"
  proof -
    from that have "\<exists>m \<in> set (take 32 fifo). 8 < unat (FDCAN_RxHeaderTypeDef.DataLength (header m))"
      by (auto simp: not_le)
    from rx_loop_bad [OF inv1 this] show ?thesis using c(3) by simp
  qed
  from report_as_loop [of s] obtain s2 acc where
    r: "can_invar s2 = can_invar s" "unread s2 = unread s"
       "send_frame_over_UART s = report_loop s2 acc"
    by blast
  have inv2: "can_invar s2" using r(1) assms by simp
  have rgood: "\<exists>r. send_frame_over_UART s = Some (Inr r)"
    if "\<forall>f \<in> set (unread s). unat (DataLength f) \<le> 8"
    using report_loop_defined [OF inv2 r(2) that, of acc] r(3) by simp
  have rbad: "send_frame_over_UART s = Some (Inl OutOfBounds)"
    if "\<exists>f \<in> set (unread s). 8 < unat (DataLength f)"
    using report_loop_bad [OF inv2 r(2) that, of acc] r(3) by simp
  have keep: "\<forall>f \<in> set (unread s'). unat (DataLength f) \<le> 8"
    if res: "HAL_FDCAN_RxFifo0Callback its fifo s = Inr (fifo', s', evs)"
      and old: "\<forall>f \<in> set (unread s). unat (DataLength f) \<le> 8"
    for fifo' s' evs
  proof -
    have ok: ?ok
    proof (rule ccontr)
      assume "\<not> ?ok"
      from bad [OF this] res show False by simp
    qed
    from good [OF ok] res have st: "store_frames (map received_frame (take 32 fifo)) s1 = Inr s'"
      by auto
    from store_frames_spec [OF inv1, of "map received_frame (take 32 fifo)"] st
    have "unread s' = unread s1 @ take (255 - occupancy s1) (map received_frame (take 32 fifo))"
      by auto
    moreover have new: "\<forall>f \<in> set (map received_frame (take 32 fifo)). unat (DataLength f) \<le> 8"
      using ok by (auto intro: received_length)
    have "\<forall>f \<in> set (take (255 - occupancy s1) (map received_frame (take 32 fifo))).
            unat (DataLength f) \<le> 8"
    proof
      fix f
      assume "f \<in> set (take (255 - occupancy s1) (map received_frame (take 32 fifo)))"
      then have "f \<in> set (map received_frame (take 32 fifo))" by (rule in_set_takeD)
      with new show "unat (DataLength f) \<le> 8" by blast
    qed
    ultimately show ?thesis
      using old c(2) by auto
  qed
  have dich: "(?ok \<and> (\<exists>r. HAL_FDCAN_RxFifo0Callback its fifo s = Inr r))
              \<or> (\<not> ?ok \<and> HAL_FDCAN_RxFifo0Callback its fifo s = Inl OutOfBounds)"
  proof (cases ?ok)
    case True
    from good [OF True] True show ?thesis by blast
  next
    case False
    from bad [OF False] False show ?thesis by blast
  qed
  let ?rok = "\<forall>f \<in> set (unread s). unat (DataLength f) \<le> 8"
  have rdich: "(?rok \<and> (\<exists>r. send_frame_over_UART s = Some (Inr r)))
              \<or> (\<not> ?rok \<and> send_frame_over_UART s = Some (Inl OutOfBounds))"
  proof (cases ?rok)
    case True
    from rgood [OF True] True show ?thesis by blast
  next
    case False
    then have "\<exists>f \<in> set (unread s). 8 < unat (DataLength f)" by (auto simp: not_le)
    from rbad [OF this] False show ?thesis by blast
  qed
  have nle: "(\<exists>m \<in> set (take 32 fifo). 8 < unat (FDCAN_RxHeaderTypeDef.DataLength (header m)))
               \<longleftrightarrow> \<not> ?ok"
    by (auto simp: not_le)
  have rnle: "(\<exists>f \<in> set (unread s). 8 < unat (DataLength f)) \<longleftrightarrow> \<not> ?rok"
    by (auto simp: not_le)
  show ?thesis
  proof (intro conjI allI impI)
    show "(\<exists>r. HAL_FDCAN_RxFifo0Callback its fifo s = Inr r) \<longleftrightarrow> ?ok"
      using dich by auto
    show "HAL_FDCAN_RxFifo0Callback its fifo s = Inl OutOfBounds
            \<longleftrightarrow> (\<exists>m \<in> set (take 32 fifo). 8 < unat (FDCAN_RxHeaderTypeDef.DataLength (header m)))"
      unfolding nle using dich by auto
    show "(\<exists>r. send_frame_over_UART s = Some (Inr r)) \<longleftrightarrow> ?rok"
      using rdich by auto
    show "send_frame_over_UART s = Some (Inl OutOfBounds)
            \<longleftrightarrow> (\<exists>f \<in> set (unread s). 8 < unat (DataLength f))"
      unfolding rnle using rdich by auto
  next
    fix fifo' s' evs
    assume "HAL_FDCAN_RxFifo0Callback its fifo s = Inr (fifo', s', evs)"
      and "\<forall>f \<in> set (unread s). unat (DataLength f) \<le> 8"
    then show "\<forall>f \<in> set (unread s'). unat (DataLength f) \<le> 8"
      by (rule keep)
  qed
qed

theorem payload_bounds_witness:
  "HAL_FDCAN_RxFifo0Callback {} [message 0x123 9 [1, 2, 3, 4, 5, 6, 7, 8]] example_state
     = Inl OutOfBounds
   \<and> HAL_FDCAN_RxFifo0Callback {} [message 0x123 0x100 []] example_state = Inl OutOfBounds
   \<and> (\<exists>r. HAL_FDCAN_RxFifo0Callback {} [message 0x123 8 [1, 2, 3, 4, 5, 6, 7, 8]] example_state
           = Inr r)
   \<and> send_frame_over_UART example_overlong = Some (Inl OutOfBounds)
   \<and> (\<exists>r. send_frame_over_UART example_pending = Some (Inr r))"
proof -
  have inv: "can_invar example_state"
    by (simp add: example_state_def invar_power_on)
  have inv2: "can_invar example_overlong"
    by (simp add: example_overlong_def example_state_def power_on_state_def can_invar_def
        SOFTWARE_CAN_BUFFER_SIZE_def)
  have inv3: "can_invar example_pending"
    by (simp add: example_pending_def example_state_def power_on_state_def can_invar_def
        SOFTWARE_CAN_BUFFER_SIZE_def)
  have u2: "unread example_overlong = [frame_A\<lparr>DataLength := 9\<rparr>]"
    by (simp add: example_overlong_def example_state_def power_on_state_def unread_def
        occupancy_def SOFTWARE_CAN_BUFFER_SIZE_def)
  have u3: "unread example_pending = [frame_A]"
    by (simp add: example_pending_def example_state_def power_on_state_def unread_def
        occupancy_def SOFTWARE_CAN_BUFFER_SIZE_def)
  have a: "HAL_FDCAN_RxFifo0Callback {} [message 0x123 9 [1, 2, 3, 4, 5, 6, 7, 8]] example_state
             = Inl OutOfBounds"
    using payload_bounds [OF inv, of "{}" "[message 0x123 9 [1, 2, 3, 4, 5, 6, 7, 8]]"]
    by (simp add: message_def)
  have b: "HAL_FDCAN_RxFifo0Callback {} [message 0x123 0x100 []] example_state = Inl OutOfBounds"
    using payload_bounds [OF inv, of "{}" "[message 0x123 0x100 []]"]
    by (simp add: message_def)
  have c: "\<exists>r. HAL_FDCAN_RxFifo0Callback {} [message 0x123 8 [1, 2, 3, 4, 5, 6, 7, 8]] example_state
             = Inr r"
    using payload_bounds [OF inv, of "{}" "[message 0x123 8 [1, 2, 3, 4, 5, 6, 7, 8]]"]
    by (simp add: message_def)
  have d: "send_frame_over_UART example_overlong = Some (Inl OutOfBounds)"
    using payload_bounds [OF inv2, of "{}" "[]"] by (simp add: u2)
  have e: "\<exists>r. send_frame_over_UART example_pending = Some (Inr r)"
    using payload_bounds [OF inv3, of "{}" "[]"] by (simp add: u3 frame_A_def)
  from a b c d e show ?thesis by blast
qed

section \<open>The index invariant is kept by every operation\<close>

text \<open>The invariant holds after power-on and every operation of the module keeps it, so
  it holds in every state the module reaches by calls that stay inside the arrays.\<close>

lemma manual_loop_buffer:
  "head (snd (manual_configuration_loop ts b s)) = head s
   \<and> tail (snd (manual_configuration_loop ts b s)) = tail s
   \<and> CAN_ring_buffer (snd (manual_configuration_loop ts b s)) = CAN_ring_buffer s"
  by (induction ts) (simp_all add: Let_def)

lemma auto_loop_buffer:
  "head (fst (snd (auto_configuration_loop ts p bus s))) = head s
   \<and> tail (fst (snd (auto_configuration_loop ts p bus s))) = tail s
   \<and> CAN_ring_buffer (fst (snd (auto_configuration_loop ts p bus s))) = CAN_ring_buffer s"
  by (induction ts arbitrary: s) (simp_all add: Let_def split_beta)

lemma report_loop_state:
  assumes "can_invar s" and "unread s = xs" and "\<forall>f \<in> set xs. unat (DataLength f) \<le> 8"
  shows "\<exists>evs. report_loop s acc = Some (Inr (s\<lparr>tail := head s\<rparr>, evs))"
  using assms
proof (induction xs arbitrary: s acc)
  case Nil
  then have e: "occupancy s = 0" using length_unread [of s] by simp
  then have ht: "head s = tail s" using occupancy_0_iff [OF Nil.prems(1)] by simp
  have "read_frame_from_software_CAN_buffer s = Inr (None, s)"
    by (rule read_frame_empty [OF Nil.prems(1) e])
  then show ?case
    by (subst report_loop.simps) (simp add: ht)
next
  case (Cons x xs)
  from read_frame_nonempty [OF Cons.prems(1,2)] obtain s1 nt where
    s1: "read_frame_from_software_CAN_buffer s = Inr (Some x, s1)" "unread s1 = xs"
        "can_invar s1" "s1 = s\<lparr>tail := nt\<rparr>"
    by blast
  obtain evs where pf: "print_frame x = Inr evs"
    using print_frame_defined [of x] Cons.prems(3) by auto
  have "\<forall>f \<in> set xs. unat (DataLength f) \<le> 8"
    using Cons.prems(3) by simp
  from Cons.IH [OF s1(3) s1(2) this, of "acc @ evs"]
  have "\<exists>evs'. report_loop s1 (acc @ evs) = Some (Inr (s\<lparr>tail := head s\<rparr>, evs'))"
    by (simp add: s1(4))
  then show ?case
    using s1(1) pf by (subst report_loop.simps) simp
qed

lemma invar_tail_to_head: "can_invar s \<Longrightarrow> can_invar (s\<lparr>tail := head s\<rparr>)"
  by (simp add: can_invar_def)

lemma invar_kept:
  assumes "can_invar s"
  shows "can_invar (snd (my_CAN_manual_configuration b s))"
    and "can_invar (fst (snd (my_CAN_auto_configuration p bus s)))"
    and "can_invar (snd (my_CAN_set_filter_mask f m s))"
    and "can_invar (fst (snd (my_CAN_start s)))"
    and "can_invar (fst (my_CAN_stop s))"
    and "HAL_FDCAN_RxFifo0Callback its fifo s = Inr (fifo', s', evs) \<Longrightarrow> can_invar s'"
    and "send_frame_over_UART s = Some (Inr (s'', evs')) \<Longrightarrow> can_invar s''"
proof -
  show "can_invar (snd (my_CAN_manual_configuration b s))"
    using assms manual_loop_buffer [of "take (unat baudrates_nbr) can_timings" b s]
    by (simp add: can_invar_def my_CAN_manual_configuration_def)
  show "can_invar (fst (snd (my_CAN_auto_configuration p bus s)))"
    using assms auto_loop_buffer [of "take (unat baudrates_nbr) can_timings" p bus s]
    by (simp add: can_invar_def my_CAN_auto_configuration_def)
  show "can_invar (snd (my_CAN_set_filter_mask f m s))"
    using assms by (simp add: can_invar_def my_CAN_set_filter_mask_def Let_def)
  show "can_invar (fst (snd (my_CAN_start s)))"
    using assms by (simp add: can_invar_def my_CAN_start_def Let_def)
  show "can_invar (fst (my_CAN_stop s))"
    using assms by (simp add: can_invar_def my_CAN_stop_def)
  show "can_invar s'" if res: "HAL_FDCAN_RxFifo0Callback its fifo s = Inr (fifo', s', evs)"
  proof -
    from callback_as_loop [of s its fifo] obtain s1 ev1 where
      c: "can_invar s1 = can_invar s"
         "HAL_FDCAN_RxFifo0Callback its fifo s
           = (case rx_loop 32 fifo s1 of
                Inl e \<Rightarrow> Inl e
              | Inr (fifo1, s2, evs) \<Rightarrow> Inr (fifo1, s2, ev1 @ evs))"
      by blast
    have inv1: "can_invar s1" using c(1) assms by simp
    have ok: "\<forall>m \<in> set (take 32 fifo). unat (FDCAN_RxHeaderTypeDef.DataLength (header m)) \<le> 8"
    proof (rule ccontr)
      assume "\<not> ?thesis"
      then have "\<exists>m \<in> set (take 32 fifo). 8 < unat (FDCAN_RxHeaderTypeDef.DataLength (header m))"
        by (auto simp: not_le)
      from rx_loop_bad [OF inv1 this] c(2) res show False by simp
    qed
    from rx_loop_ok [OF inv1 ok] obtain t evs1 where
      "rx_loop 32 fifo s1 = Inr (drop 32 fifo, t, evs1)" "can_invar t"
      by blast
    with c(2) res show ?thesis by simp
  qed
  show "can_invar s''" if res: "send_frame_over_UART s = Some (Inr (s'', evs'))"
  proof -
    from report_as_loop [of s] obtain s2 acc where
      r: "can_invar s2 = can_invar s" "unread s2 = unread s"
         "send_frame_over_UART s = report_loop s2 acc"
      by blast
    have inv2: "can_invar s2" using r(1) assms by simp
    have ok: "\<forall>f \<in> set (unread s). unat (DataLength f) \<le> 8"
    proof (rule ccontr)
      assume "\<not> ?thesis"
      then have "\<exists>f \<in> set (unread s). 8 < unat (DataLength f)"
        by (auto simp: not_le)
      from report_loop_bad [OF inv2 r(2) this, of acc] r(3) res show False by simp
    qed
    from report_loop_state [OF inv2 r(2) ok, of acc] r(3) res
    have "s'' = s2\<lparr>tail := head s2\<rparr>" by auto
    with invar_tail_to_head [OF inv2] show ?thesis by simp
  qed
qed

end
